theory Spec2Isabelle
  imports Main "HOL-Library.Word"
begin

section \<open>Protocol constants\<close>

text \<open>
  The enum \<open>ArduinoCommand\<close> of \<open>src/index.ts\<close> with the numeric value the source gives
  to each member.
\<close>

datatype ArduinoCommand =
    TurnWrist
  | ThumbRelax | ThumbCurl
  | PointerRelax | PointerCurl
  | MiddleRelax | MiddleCurl
  | RingRelax | RingCurl
  | PinkyRelax | PinkyCurl

fun ArduinoCommand_value :: "ArduinoCommand \<Rightarrow> int" where
  "ArduinoCommand_value TurnWrist = 4"
| "ArduinoCommand_value ThumbRelax = 5"
| "ArduinoCommand_value ThumbCurl = 6"
| "ArduinoCommand_value PointerRelax = 7"
| "ArduinoCommand_value PointerCurl = 8"
| "ArduinoCommand_value MiddleRelax = 9"
| "ArduinoCommand_value MiddleCurl = 10"
| "ArduinoCommand_value RingRelax = 11"
| "ArduinoCommand_value RingCurl = 12"
| "ArduinoCommand_value PinkyRelax = 13"
| "ArduinoCommand_value PinkyCurl = 14"

definition ArduinoCommand_members :: "ArduinoCommand list" where
  "ArduinoCommand_members =
     [TurnWrist, ThumbRelax, ThumbCurl, PointerRelax, PointerCurl, MiddleRelax, MiddleCurl,
      RingRelax, RingCurl, PinkyRelax, PinkyCurl]"

text \<open>
  The five fingers in the order of the enum, with the relax and the curl member of each.
\<close>

definition relax_of :: "nat \<Rightarrow> ArduinoCommand" where
  "relax_of i = [ThumbRelax, PointerRelax, MiddleRelax, RingRelax, PinkyRelax] ! i"

definition curl_of :: "nat \<Rightarrow> ArduinoCommand" where
  "curl_of i = [ThumbCurl, PointerCurl, MiddleCurl, RingCurl, PinkyCurl] ! i"

text \<open>
  \<open>RPSAction\<close> is imported from the package \<open>rps-stuff\<close>; its declaration is not part of
  this repository. The source uses the three members \<open>Rock\<close>, \<open>Paper\<close> and \<open>Scissors\<close> as
  numbers (\<open>action++\<close>, \<open>action >= RPSAction.Scissors\<close>), so the enum is a parameter of the
  model: a record of the three numeric values.
\<close>

record RPSAction =
  Rock :: int
  Paper :: int
  Scissors :: int

text \<open>The remainder operator \<open>%\<close> of JavaScript: the result has the sign of the dividend.\<close>

definition js_rem :: "int \<Rightarrow> int \<Rightarrow> int" where
  "js_rem a b = sgn a * (\<bar>a\<bar> mod \<bar>b\<bar>)"

section \<open>State\<close>

text \<open>
  A callback registered with \<open>setInterval\<close>, together with the local variable its closure
  captured: the rotation callback of \<open>idle\<close>, the callback of \<open>CycleGesturesAnimation.do\<close>
  with its \<open>action\<close>, the callback of \<open>FingerWaveAnimation.do\<close> with its \<open>finger\<close>.
\<close>

datatype callback = RotationTick | CycleTick int | WaveTick int

text \<open>The three objects of \<open>idleAnimations\<close>, in the order of the array.\<close>

datatype animation = FingerWave | TurnWristAnim | CycleGestures

definition idleAnimations :: "animation list" where
  "idleAnimations = [FingerWave, TurnWristAnim, CycleGestures]"

text \<open>An entry of the call trace: which method of which animation object was entered.\<close>

datatype call = CallDo animation | CallCleanup animation

datatype error = TypeError

text \<open>
  The object \<open>ArduinoOutput\<close> and everything it reaches.
  \<^item> \<open>serial\<close> is \<open>None\<close> while the field is unset or \<open>null\<close>; otherwise it holds the
    buffers written to the port so far, oldest first, each a list of bytes.
  \<^item> \<open>console\<close> holds the numbers printed by \<open>console.log\<close> in \<open>send\<close>.
  \<^item> \<open>idleTimer\<close>, \<open>FingerWave_timer\<close> and \<open>CycleGestures_timer\<close> are the \<open>timer\<close> fields:
    \<open>None\<close> for \<open>null\<close>, a handle otherwise (every handle is truthy).
  \<^item> \<open>idleCurrent\<close> is \<open>None\<close> for \<open>null\<close>.
  \<^item> \<open>timers\<close> is the interval table of the runtime: the handle \<open>h\<close> is the position \<open>h\<close>,
    \<open>Some cb\<close> there is an interval that is still scheduled, \<open>None\<close> one that was cleared.
  \<^item> \<open>calls\<close> is a trace of the calls of \<open>do\<close> and \<open>cleanup\<close>, oldest first. No operation
    reads it; it is there to state properties of the order of these calls.
\<close>

record ArduinoOutput =
  port :: string
  baudRate :: int
  serial :: "8 word list list option"
  console :: "int list"
  idleTimer :: "nat option"
  idleCurrent :: "int option"
  FingerWave_timer :: "nat option"
  CycleGestures_timer :: "nat option"
  timers :: "callback option list"
  calls :: "call list"

text \<open>
  A method either returns or throws; the object keeps the mutations made before the throw.
\<close>

datatype outcome = Returned ArduinoOutput | Threw error ArduinoOutput

fun state_of :: "outcome \<Rightarrow> ArduinoOutput" where
  "state_of (Returned s) = s"
| "state_of (Threw e s) = s"

fun returned :: "outcome \<Rightarrow> bool" where
  "returned (Returned s) = True"
| "returned (Threw e s) = False"

text \<open>Sequencing of two statements: the second runs only when the first returned.\<close>

fun and_then :: "outcome \<Rightarrow> (ArduinoOutput \<Rightarrow> outcome) \<Rightarrow> outcome" where
  "and_then (Returned s) f = f s"
| "and_then (Threw e s) f = Threw e s"

text \<open>The state after \<open>new ArduinoOutput(port, baudRate)\<close>.\<close>

definition new_ArduinoOutput :: "string \<Rightarrow> int \<Rightarrow> ArduinoOutput" where
  "new_ArduinoOutput p b =
     \<lparr>port = p, baudRate = b, serial = None, console = [], idleTimer = None,
      idleCurrent = None, FingerWave_timer = None, CycleGestures_timer = None,
      timers = [], calls = []\<rparr>"

section \<open>Timers\<close>

definition setInterval :: "callback \<Rightarrow> ArduinoOutput \<Rightarrow> nat \<times> ArduinoOutput" where
  "setInterval cb s = (length (timers s), s\<lparr>timers := timers s @ [Some cb]\<rparr>)"

definition clearInterval :: "nat \<Rightarrow> ArduinoOutput \<Rightarrow> ArduinoOutput" where
  "clearInterval h s = s\<lparr>timers := (timers s)[h := None]\<rparr>"

definition timer_at :: "nat \<Rightarrow> ArduinoOutput \<Rightarrow> callback option" where
  "timer_at h s = (if h < length (timers s) then timers s ! h else None)"

section \<open>Sending a command\<close>

text \<open>Storing a number into an \<open>Int8Array\<close>: the integer modulo \<open>2 ^ 8\<close>.\<close>

definition toInt8 :: "int \<Rightarrow> 8 word" where
  "toInt8 command = word_of_int command"

definition send :: "int \<Rightarrow> ArduinoOutput \<Rightarrow> outcome" where
  "send command s =
     (let s1 = s\<lparr>console := console s @ [command]\<rparr> in
      case serial s1 of
        None \<Rightarrow> Threw TypeError s1
      | Some written \<Rightarrow> Returned (s1\<lparr>serial := Some (written @ [[toInt8 command]])\<rparr>))"

text \<open>The buffers written to the port so far.\<close>

definition written :: "ArduinoOutput \<Rightarrow> 8 word list list" where
  "written s = (case serial s of None \<Rightarrow> [] | Some ws \<Rightarrow> ws)"

section \<open>The idle animations\<close>

definition called :: "call \<Rightarrow> ArduinoOutput \<Rightarrow> ArduinoOutput" where
  "called c s = s\<lparr>calls := calls s @ [c]\<rparr>"

subsection \<open>TurnWristAnimation\<close>

definition TurnWristAnimation_do :: "ArduinoOutput \<Rightarrow> outcome" where
  "TurnWristAnimation_do s =
     send (ArduinoCommand_value TurnWrist) (called (CallDo TurnWristAnim) s)"

definition TurnWristAnimation_cleanup :: "ArduinoOutput \<Rightarrow> outcome" where
  "TurnWristAnimation_cleanup s = Returned (called (CallCleanup TurnWristAnim) s)"

subsection \<open>CycleGesturesAnimation\<close>

definition CycleGesturesAnimation_cleanup :: "ArduinoOutput \<Rightarrow> outcome" where
  "CycleGesturesAnimation_cleanup s0 =
     (let s = called (CallCleanup CycleGestures) s0 in
      case CycleGestures_timer s of
        Some h \<Rightarrow> Returned ((clearInterval h s)\<lparr>CycleGestures_timer := None\<rparr>)
      | None \<Rightarrow> Returned s)"

definition CycleGesturesAnimation_do :: "RPSAction \<Rightarrow> ArduinoOutput \<Rightarrow> outcome" where
  "CycleGesturesAnimation_do A s0 =
     (let action = Rock A in
      and_then (send action (called (CallDo CycleGestures) s0)) (\<lambda>s.
        let (h, s') = setInterval (CycleTick action) s in
        Returned (s'\<lparr>CycleGestures_timer := Some h\<rparr>)))"

text \<open>
  The interval callback of \<open>CycleGesturesAnimation.do\<close>, registered under the handle \<open>h\<close>,
  with \<open>action\<close> the current value of the captured variable.
\<close>

definition CycleGesturesAnimation_tick ::
  "RPSAction \<Rightarrow> nat \<Rightarrow> int \<Rightarrow> ArduinoOutput \<Rightarrow> outcome" where
  "CycleGesturesAnimation_tick A h action0 s0 =
     (let action = action0 + 1;
          s = s0\<lparr>timers := (timers s0)[h := Some (CycleTick action)]\<rparr> in
      and_then (send action s) (\<lambda>s.
        if action \<ge> Scissors A then CycleGesturesAnimation_cleanup s else Returned s))"

subsection \<open>FingerWaveAnimation\<close>

definition FingerWaveAnimation_do :: "RPSAction \<Rightarrow> ArduinoOutput \<Rightarrow> outcome" where
  "FingerWaveAnimation_do A s0 =
     and_then (send (Rock A) (called (CallDo FingerWave) s0)) (\<lambda>s.
       let finger = 4;
           (h, s') = setInterval (WaveTick finger) s in
       Returned (s'\<lparr>FingerWave_timer := Some h\<rparr>))"

text \<open>
  The interval callback of \<open>FingerWaveAnimation.do\<close>, registered under the handle \<open>h\<close>,
  with \<open>finger0\<close> the current value of the captured variable.
\<close>

definition FingerWaveAnimation_tick :: "nat \<Rightarrow> int \<Rightarrow> ArduinoOutput \<Rightarrow> outcome" where
  "FingerWaveAnimation_tick h finger0 s0 =
     and_then (send ((if finger0 \<le> 0 then 4 else finger0 - 1) * 2 + 6) s0) (\<lambda>s.
       let finger = js_rem (finger0 + 1) 5;
           s' = s\<lparr>timers := (timers s)[h := Some (WaveTick finger)]\<rparr> in
       send (finger * 2 + 5) s')"

definition FingerWaveAnimation_cleanup :: "RPSAction \<Rightarrow> ArduinoOutput \<Rightarrow> outcome" where
  "FingerWaveAnimation_cleanup A s0 =
     and_then (send (Paper A) (called (CallCleanup FingerWave) s0)) (\<lambda>s.
       case FingerWave_timer s of
         Some h \<Rightarrow> Returned ((clearInterval h s)\<lparr>FingerWave_timer := None\<rparr>)
       | None \<Rightarrow> Returned s)"

subsection \<open>Dispatch through the interface ArduinoIdleAnimation\<close>

fun animation_do :: "RPSAction \<Rightarrow> animation \<Rightarrow> ArduinoOutput \<Rightarrow> outcome" where
  "animation_do A FingerWave s = FingerWaveAnimation_do A s"
| "animation_do A TurnWristAnim s = TurnWristAnimation_do s"
| "animation_do A CycleGestures s = CycleGesturesAnimation_do A s"

fun animation_cleanup :: "RPSAction \<Rightarrow> animation \<Rightarrow> ArduinoOutput \<Rightarrow> outcome" where
  "animation_cleanup A FingerWave s = FingerWaveAnimation_cleanup A s"
| "animation_cleanup A TurnWristAnim s = TurnWristAnimation_cleanup s"
| "animation_cleanup A CycleGestures s = CycleGesturesAnimation_cleanup s"

text \<open>
  \<open>this.idleAnimations[i]\<close>: outside the array the read gives \<open>undefined\<close>, and the method
  call on it throws.
\<close>

definition animation_at :: "int \<Rightarrow> animation option" where
  "animation_at i =
     (if 0 \<le> i \<and> i < int (length idleAnimations) then Some (idleAnimations ! nat i)
      else None)"

section \<open>ArduinoOutput\<close>

definition init :: "RPSAction \<Rightarrow> ArduinoOutput \<Rightarrow> outcome" where
  "init A s = send (Rock A) (s\<lparr>serial := Some []\<rparr>)"

definition stopIdleAnimations :: "RPSAction \<Rightarrow> ArduinoOutput \<Rightarrow> outcome" where
  "stopIdleAnimations A s0 =
     and_then
       (case idleCurrent s0 of
          Some i \<Rightarrow>
            (case animation_at i of
               None \<Rightarrow> Threw TypeError s0
             | Some a \<Rightarrow>
                 and_then (animation_cleanup A a s0) (\<lambda>s. Returned (s\<lparr>idleCurrent := None\<rparr>)))
        | None \<Rightarrow> Returned s0)
       (\<lambda>s. case idleTimer s of
          Some h \<Rightarrow> Returned ((clearInterval h s)\<lparr>idleTimer := None\<rparr>)
        | None \<Rightarrow> Returned s)"

text \<open>The interval callback registered by \<open>idle\<close>.\<close>

definition rotation_tick :: "RPSAction \<Rightarrow> ArduinoOutput \<Rightarrow> outcome" where
  "rotation_tick A s0 =
     and_then
       (case idleCurrent s0 of
          Some i \<Rightarrow>
            (case animation_at i of
               None \<Rightarrow> Threw TypeError s0
             | Some a \<Rightarrow> animation_cleanup A a s0)
        | None \<Rightarrow> Returned (s0\<lparr>idleCurrent := Some (- 1)\<rparr>))
       (\<lambda>s.
          let incremented = (case idleCurrent s of Some i \<Rightarrow> i + 1 | None \<Rightarrow> 1);
              current = js_rem incremented (int (length idleAnimations));
              s' = s\<lparr>idleCurrent := Some current\<rparr> in
          case animation_at current of
            None \<Rightarrow> Threw TypeError s'
          | Some a \<Rightarrow> animation_do A a s')"

definition idle :: "RPSAction \<Rightarrow> ArduinoOutput \<Rightarrow> outcome" where
  "idle A s0 =
     and_then (send (Paper A) s0) (\<lambda>s.
       case idleTimer s of
         None \<Rightarrow>
           (let (h, s') = setInterval RotationTick s in Returned (s'\<lparr>idleTimer := Some h\<rparr>))
       | Some h \<Rightarrow> Returned s)"

definition countdown :: "'c \<Rightarrow> ArduinoOutput \<Rightarrow> outcome" where
  "countdown state s = send (ArduinoCommand_value TurnWrist) s"

definition shoot :: "int \<Rightarrow> ArduinoOutput \<Rightarrow> outcome" where
  "shoot action s = send action s"

definition gameStart :: "RPSAction \<Rightarrow> ArduinoOutput \<Rightarrow> outcome" where
  "gameStart A s0 = and_then (stopIdleAnimations A s0) (\<lambda>s. send (Rock A) s)"

definition tryAgain :: "ArduinoOutput \<Rightarrow> outcome" where
  "tryAgain s = Returned s"

definition robotWin :: "RPSAction \<Rightarrow> int \<Rightarrow> int \<Rightarrow> ArduinoOutput \<Rightarrow> outcome" where
  "robotWin A robot human s = send (Rock A) s"

definition humanWin :: "RPSAction \<Rightarrow> int \<Rightarrow> int \<Rightarrow> ArduinoOutput \<Rightarrow> outcome" where
  "humanWin A robot human s = send (Rock A) s"

definition tie :: "RPSAction \<Rightarrow> int \<Rightarrow> ArduinoOutput \<Rightarrow> outcome" where
  "tie A action s = send (Rock A) s"

definition score :: "int \<Rightarrow> int \<Rightarrow> ArduinoOutput \<Rightarrow> outcome" where
  "score robot human s = Returned s"

definition gameStop :: "RPSAction \<Rightarrow> ArduinoOutput \<Rightarrow> outcome" where
  "gameStop A s = send (Paper A) s"

section \<open>The runtime firing a timer, and runs of events\<close>

text \<open>
  The runtime calls the callback of an interval that is still scheduled; a handle that was
  cleared, or never given out, has nothing to call.
\<close>

definition fire :: "RPSAction \<Rightarrow> nat \<Rightarrow> ArduinoOutput \<Rightarrow> outcome" where
  "fire A h s =
     (case timer_at h s of
        None \<Rightarrow> Returned s
      | Some RotationTick \<Rightarrow> rotation_tick A s
      | Some (CycleTick action) \<Rightarrow> CycleGesturesAnimation_tick A h action s
      | Some (WaveTick finger) \<Rightarrow> FingerWaveAnimation_tick h finger s)"

text \<open>The same interval firing \<open>n\<close> times in a row.\<close>

fun fire_times :: "RPSAction \<Rightarrow> nat \<Rightarrow> nat \<Rightarrow> ArduinoOutput \<Rightarrow> ArduinoOutput" where
  "fire_times A h 0 s = s"
| "fire_times A h (Suc n) s = fire_times A h n (state_of (fire A h s))"

text \<open>
  What can happen to the object between two moments: the game engine calls \<open>idle\<close>,
  \<open>gameStart\<close> or \<open>stopIdleAnimations\<close>, or the runtime fires one of the intervals (the
  rotation interval or the interval of an animation). Time is not modelled: a run is any
  interleaving of these events, which covers every choice of the interval lengths.
\<close>

datatype event = Idle | GameStart | StopIdle | Tick nat

fun step :: "RPSAction \<Rightarrow> event \<Rightarrow> ArduinoOutput \<Rightarrow> outcome" where
  "step A Idle s = idle A s"
| "step A GameStart s = gameStart A s"
| "step A StopIdle s = stopIdleAnimations A s"
| "step A (Tick h) s = fire A h s"

fun run :: "RPSAction \<Rightarrow> event list \<Rightarrow> ArduinoOutput \<Rightarrow> ArduinoOutput" where
  "run A [] s = s"
| "run A (e # es) s = run A es (state_of (step A e s))"

text \<open>
  The animations that were started and not yet stopped, read off a call trace: a call of
  \<open>do\<close> adds the animation, a call of \<open>cleanup\<close> removes one occurrence of it.
\<close>

fun started_not_stopped :: "call list \<Rightarrow> animation list \<Rightarrow> animation list" where
  "started_not_stopped [] acc = acc"
| "started_not_stopped (CallDo a # cs) acc = started_not_stopped cs (a # acc)"
| "started_not_stopped (CallCleanup a # cs) acc = started_not_stopped cs (remove1 a acc)"

text \<open>
  The same reading of a call trace, checked at every point of the trace: before each call
  and at the end, at most one animation is started and not yet stopped.
\<close>

fun never_two_started :: "call list \<Rightarrow> animation list \<Rightarrow> bool" where
  "never_two_started [] acc = (length acc \<le> 1)"
| "never_two_started (CallDo a # cs) acc = (length acc \<le> 1 \<and> never_two_started cs (a # acc))"
| "never_two_started (CallCleanup a # cs) acc =
     (length acc \<le> 1 \<and> never_two_started cs (remove1 a acc))"

text \<open>The handles of the intervals of animations that are still scheduled.\<close>

definition animation_timers :: "ArduinoOutput \<Rightarrow> nat list" where
  "animation_timers s =
     filter (\<lambda>h. timers s ! h \<noteq> None \<and> timers s ! h \<noteq> Some RotationTick)
       [0 ..< length (timers s)]"

text \<open>
  A connected object on which nothing was scheduled yet: the state \<open>init\<close> leaves behind.
\<close>

definition connected_at_rest :: "ArduinoOutput \<Rightarrow> bool" where
  "connected_at_rest s \<longleftrightarrow>
     serial s \<noteq> None \<and> idleTimer s = None \<and> idleCurrent s = None \<and>
     FingerWave_timer s = None \<and> CycleGestures_timer s = None \<and>
     timers s = [] \<and> calls s = []"

text \<open>
  \<open>idleCurrent\<close> is \<open>null\<close> or an index into \<open>idleAnimations\<close>.
\<close>

definition valid_current :: "ArduinoOutput \<Rightarrow> bool" where
  "valid_current s =
     (case idleCurrent s of None \<Rightarrow> True
      | Some i \<Rightarrow> 0 \<le> i \<and> i < int (length idleAnimations))"

text \<open>
  The members of \<open>RPSAction\<close> are numbered in a row, in the order rock, paper, scissors (as
  a TypeScript enum numbers its members when it is declared in that order).
\<close>

definition consecutive :: "RPSAction \<Rightarrow> bool" where
  "consecutive A \<longleftrightarrow> Paper A = Rock A + 1 \<and> Scissors A = Paper A + 1"

text \<open>
  The two buffers written by tick number \<open>k\<close> (counted from 0) of a finger wave: the curl
  command of finger \<open>(k + 3) mod 5\<close>, then the relax command of finger \<open>k mod 5\<close>.
\<close>

definition wave_tick_commands :: "nat \<Rightarrow> 8 word list list" where
  "wave_tick_commands k =
     [[toInt8 (ArduinoCommand_value (curl_of ((k + 3) mod 5)))],
      [toInt8 (ArduinoCommand_value (relax_of (k mod 5)))]]"

text \<open>
  The spec's words for a tick of the finger wave, to be compared with the source: a relax
  command for one finger \<open>f\<close> and a curl command for the next finger.
\<close>

definition spec_wave_tick :: "nat \<Rightarrow> int list" where
  "spec_wave_tick f =
     [ArduinoCommand_value (relax_of f), ArduinoCommand_value (curl_of ((f + 1) mod 5))]"

text \<open>
  The object after \<open>FingerWaveAnimation.do\<close> on \<open>s\<close> and then \<open>n\<close> ticks of the interval it
  registered.
\<close>

definition wave_after :: "RPSAction \<Rightarrow> nat \<Rightarrow> ArduinoOutput \<Rightarrow> ArduinoOutput" where
  "wave_after A n s =
     fire_times A (length (timers s)) n (state_of (FingerWaveAnimation_do A s))"

section \<open>The invariant of the scheduler\<close>

text \<open>
  The field that holds the handle of a callback: \<open>idleTimer\<close> for the rotation callback,
  the \<open>timer\<close> field of its animation object for the callback of an animation.
\<close>

definition owner :: "ArduinoOutput \<Rightarrow> callback \<Rightarrow> nat option" where
  "owner s c =
     (case c of
        RotationTick \<Rightarrow> idleTimer s
      | CycleTick action \<Rightarrow> CycleGestures_timer s
      | WaveTick finger \<Rightarrow> FingerWave_timer s)"

text \<open>No interval has leaked: every scheduled interval is the one its field points to.\<close>

definition timers_owned :: "ArduinoOutput \<Rightarrow> bool" where
  "timers_owned s \<longleftrightarrow>
     (\<forall>h c. h < length (timers s) \<longrightarrow> timers s ! h = Some c \<longrightarrow> owner s c = Some h)"

definition nothing_running :: "ArduinoOutput \<Rightarrow> bool" where
  "nothing_running s \<longleftrightarrow>
     serial s \<noteq> None \<and> timers_owned s \<and> FingerWave_timer s = None \<and>
     CycleGestures_timer s = None \<and> started_not_stopped (calls s) [] = []"

text \<open>The animation \<open>idleCurrent\<close> points to, if any.\<close>

definition current_animation :: "ArduinoOutput \<Rightarrow> animation option" where
  "current_animation s = (case idleCurrent s of None \<Rightarrow> None | Some i \<Rightarrow> animation_at i)"

text \<open>
  Only the current animation can own a timer, and only the current animation can be
  started and not yet stopped.
\<close>

definition current_consistent :: "ArduinoOutput \<Rightarrow> bool" where
  "current_consistent s \<longleftrightarrow>
     valid_current s \<and>
     (FingerWave_timer s = None \<or> current_animation s = Some FingerWave) \<and>
     (CycleGestures_timer s = None \<or> current_animation s = Some CycleGestures) \<and>
     (started_not_stopped (calls s) [] = [] \<or>
      map Some (started_not_stopped (calls s) []) = [current_animation s])"

definition scheduler_inv :: "ArduinoOutput \<Rightarrow> bool" where
  "scheduler_inv s \<longleftrightarrow> serial s \<noteq> None \<and> timers_owned s \<and> current_consistent s"

text \<open>Idle mode is off and no interval is scheduled.\<close>

definition quiet :: "ArduinoOutput \<Rightarrow> bool" where
  "quiet s \<longleftrightarrow>
     serial s \<noteq> None \<and> idleTimer s = None \<and> idleCurrent s = None \<and>
     (\<forall>h. timer_at h s = None)"

section \<open>Concrete objects\<close>

text \<open>
  Modelled from the spec: the declaration of \<open>RPSAction\<close> is missing (it belongs to the
  package \<open>rps-stuff\<close>); the spec numbers the three move codes 0 to 2, in the order rock,
  paper, scissors. These values are used for concrete runs only; the general statements
  keep the enum as a parameter.
\<close>

definition RPSAction_012 :: RPSAction where
  "RPSAction_012 = \<lparr>Rock = 0, Paper = 1, Scissors = 2\<rparr>"

text \<open>
  The object after \<open>init\<close>, after a first call of \<open>idle\<close>, and after the first tick of
  the rotation interval (which starts the finger wave).
\<close>

definition connected :: ArduinoOutput where
  "connected = state_of (init RPSAction_012 (new_ArduinoOutput ''/dev/ttyACM0'' 9600))"

definition idling :: ArduinoOutput where
  "idling = state_of (idle RPSAction_012 connected)"

definition waving :: ArduinoOutput where
  "waving = state_of (fire RPSAction_012 0 idling)"

text \<open>The waving object after \<open>stopIdleAnimations\<close>.\<close>

definition stopped :: ArduinoOutput where
  "stopped = state_of (stopIdleAnimations RPSAction_012 waving)"

text \<open>
  The object after \<open>idle\<close> and three ticks of the rotation interval: the wave and the wrist
  turn have come and gone, the gesture cycle has just been started.
\<close>

definition cycling :: ArduinoOutput where
  "cycling = run RPSAction_012 [Idle, Tick 0, Tick 0, Tick 0] connected"

section \<open>Basic facts\<close>

lemma toInt8_sint: "sint (toInt8 c) = (c + 128) mod 256 - 128"
  by (simp add: toInt8_def int_word_sint)

lemma send_connected:
  "serial s = Some ws \<Longrightarrow>
   send c s = Returned (s\<lparr>console := console s @ [c], serial := Some (ws @ [[toInt8 c]])\<rparr>)"
  by (simp add: send_def)

lemma connected_eq:
  "connected = \<lparr>port = ''/dev/ttyACM0'', baudRate = 9600, serial = Some [[0]], console = [0],
      idleTimer = None, idleCurrent = None, FingerWave_timer = None,
      CycleGestures_timer = None, timers = [], calls = []\<rparr>"
  by (simp add: connected_def init_def send_def new_ArduinoOutput_def RPSAction_012_def toInt8_def)

lemma idling_eq:
  "idling = \<lparr>port = ''/dev/ttyACM0'', baudRate = 9600, serial = Some [[0], [1]], console = [0, 1],
      idleTimer = Some 0, idleCurrent = None, FingerWave_timer = None,
      CycleGestures_timer = None, timers = [Some RotationTick], calls = []\<rparr>"
  by (simp add: idling_def connected_eq idle_def send_def setInterval_def RPSAction_012_def toInt8_def)

lemma waving_eq:
  "waving = \<lparr>port = ''/dev/ttyACM0'', baudRate = 9600, serial = Some [[0], [1], [0]],
      console = [0, 1, 0],
      idleTimer = Some 0, idleCurrent = Some 0, FingerWave_timer = Some 1,
      CycleGestures_timer = None, timers = [Some RotationTick, Some (WaveTick 4)],
      calls = [CallDo FingerWave]\<rparr>"
  by (simp add: waving_def idling_eq fire_def timer_at_def rotation_tick_def js_rem_def
      animation_at_def idleAnimations_def FingerWaveAnimation_do_def called_def
      send_def setInterval_def RPSAction_012_def toInt8_def)

lemma stopped_eq:
  "stopped = \<lparr>port = ''/dev/ttyACM0'', baudRate = 9600, serial = Some [[0], [1], [0], [1]],
      console = [0, 1, 0, 1],
      idleTimer = None, idleCurrent = None, FingerWave_timer = None,
      CycleGestures_timer = None, timers = [None, None],
      calls = [CallDo FingerWave, CallCleanup FingerWave]\<rparr>"
  by (simp add: stopped_def waving_eq stopIdleAnimations_def animation_at_def idleAnimations_def
      FingerWaveAnimation_cleanup_def called_def send_def clearInterval_def
      RPSAction_012_def toInt8_def)

lemma animation_at_Some:
  "0 \<le> i \<Longrightarrow> i < int (length idleAnimations) \<Longrightarrow> \<exists>a. animation_at i = Some a"
  by (simp add: animation_at_def)

lemma animation_cleanup_connected:
  assumes "serial s = Some ws"
  shows "\<exists>s'. animation_cleanup A a s = Returned s' \<and> serial s' \<noteq> None \<and>
              idleTimer s' = idleTimer s \<and> idleCurrent s' = idleCurrent s"
  using assms
  by (cases a)
     (simp_all add: FingerWaveAnimation_cleanup_def TurnWristAnimation_cleanup_def
        CycleGesturesAnimation_cleanup_def called_def send_def clearInterval_def Let_def
        split: option.split)

lemma stopIdleAnimations_at_rest:
  "idleCurrent s = None \<Longrightarrow> idleTimer s = None \<Longrightarrow> stopIdleAnimations A s = Returned s"
  by (simp add: stopIdleAnimations_def)

lemma stopIdleAnimations_connected:
  assumes "serial s = Some ws" and "valid_current s"
  shows "\<exists>s'. stopIdleAnimations A s = Returned s' \<and> idleCurrent s' = None \<and>
              idleTimer s' = None \<and>
              (case idleTimer s of None \<Rightarrow> True | Some h \<Rightarrow> timer_at h s' = None)"
proof (cases "idleCurrent s")
  case None
  then show ?thesis
    by (simp add: stopIdleAnimations_def clearInterval_def timer_at_def split: option.split)
next
  case (Some i)
  with assms(2) obtain a where a: "animation_at i = Some a"
    using animation_at_Some [of i] by (auto simp add: valid_current_def)
  from animation_cleanup_connected [OF assms(1), of A a]
  obtain s1 where s1: "animation_cleanup A a s = Returned s1" "idleTimer s1 = idleTimer s"
    by blast
  show ?thesis
    using Some a s1
    by (simp add: stopIdleAnimations_def clearInterval_def timer_at_def split: option.split)
qed

lemma fire_times_Suc: "fire_times A h (Suc n) s = state_of (fire A h (fire_times A h n s))"
  by (induction n arbitrary: s) simp_all

lemma fire_times_dead: "timer_at h s = None \<Longrightarrow> fire_times A h n s = s"
  by (induction n) (simp_all add: fire_def)

lemma CycleGestures_do_connected:
  assumes "serial s = Some ws"
  shows "\<exists>s1. CycleGesturesAnimation_do A s = Returned s1 \<and>
           serial s1 = Some (ws @ [[toInt8 (Rock A)]]) \<and>
           CycleGestures_timer s1 = Some (length (timers s)) \<and>
           timers s1 = timers s @ [Some (CycleTick (Rock A))]"
  using assms
  by (simp add: CycleGesturesAnimation_do_def send_def called_def setInterval_def Let_def)

lemma CycleGestures_tick_connected:
  assumes "serial s = Some ws" and "h < length (timers s)"
    and "timers s ! h = Some (CycleTick a)" and "CycleGestures_timer s = Some h"
  shows "\<exists>s'. fire A h s = Returned s' \<and>
           serial s' = Some (ws @ [[toInt8 (a + 1)]]) \<and>
           length (timers s') = length (timers s) \<and>
           (if Scissors A \<le> a + 1
            then CycleGestures_timer s' = None \<and> timers s' ! h = None
            else CycleGestures_timer s' = Some h \<and> timers s' ! h = Some (CycleTick (a + 1)))"
  using assms
  by (simp add: fire_def timer_at_def CycleGesturesAnimation_tick_def send_def
      CycleGesturesAnimation_cleanup_def called_def clearInterval_def Let_def)

lemma curl_of_value: "i < 5 \<Longrightarrow> ArduinoCommand_value (curl_of i) = 2 * int i + 6"
proof -
  assume "i < 5"
  then have "i = 0 \<or> i = 1 \<or> i = 2 \<or> i = 3 \<or> i = 4" by arith
  then show ?thesis by (auto simp add: curl_of_def)
qed

lemma relax_of_value: "i < 5 \<Longrightarrow> ArduinoCommand_value (relax_of i) = 2 * int i + 5"
proof -
  assume "i < 5"
  then have "i = 0 \<or> i = 1 \<or> i = 2 \<or> i = 3 \<or> i = 4" by arith
  then show ?thesis by (auto simp add: relax_of_def)
qed

lemma FingerWave_do_connected:
  assumes "serial s = Some ws"
  shows "\<exists>s1. FingerWaveAnimation_do A s = Returned s1 \<and>
           serial s1 = Some (ws @ [[toInt8 (Rock A)]]) \<and>
           FingerWave_timer s1 = Some (length (timers s)) \<and>
           timers s1 = timers s @ [Some (WaveTick 4)]"
  using assms
  by (simp add: FingerWaveAnimation_do_def send_def called_def setInterval_def Let_def)

lemma wave_previous: "f < 5 \<Longrightarrow> (if int f \<le> 0 then 4 else int f - 1) = int ((f + 4) mod 5)"
  by (cases "f = 0") (auto simp add: mod_if)

lemma wave_next: "js_rem (int f + 1) 5 = int ((f + 1) mod 5)"
  by (simp add: js_rem_def zmod_int add.commute)

lemma FingerWave_tick_connected:
  assumes "serial s = Some ws" and "h < length (timers s)"
    and "timers s ! h = Some (WaveTick (int f))" and "f < 5"
  shows "\<exists>s'. fire A h s = Returned s' \<and>
           serial s' = Some (ws @
             [[toInt8 (ArduinoCommand_value (curl_of ((f + 4) mod 5)))],
              [toInt8 (ArduinoCommand_value (relax_of ((f + 1) mod 5)))]]) \<and>
           length (timers s') = length (timers s) \<and>
           timers s' ! h = Some (WaveTick (int ((f + 1) mod 5))) \<and>
           FingerWave_timer s' = FingerWave_timer s"
proof -
  have c: "ArduinoCommand_value (curl_of ((f + 4) mod 5)) = 2 * int ((f + 4) mod 5) + 6"
    and r: "ArduinoCommand_value (relax_of ((f + 1) mod 5)) = 2 * int ((f + 1) mod 5) + 5"
    by (simp_all add: curl_of_value relax_of_value)
  show ?thesis
    using assms(1,2,3) wave_previous [OF assms(4)]
    unfolding c r
    by (simp add: fire_def timer_at_def FingerWaveAnimation_tick_def send_def Let_def wave_next
        mult.commute)
qed

lemma FingerWave_ticks:
  assumes "serial s1 = Some ws1" and "h < length (timers s1)"
    and "timers s1 ! h = Some (WaveTick 4)"
  shows "serial (fire_times A h n s1) = Some (ws1 @ concat (map wave_tick_commands [0 ..< n])) \<and>
         h < length (timers (fire_times A h n s1)) \<and>
         timers (fire_times A h n s1) ! h = Some (WaveTick (int ((4 + n) mod 5))) \<and>
         FingerWave_timer (fire_times A h n s1) = FingerWave_timer s1"
proof (induction n)
  case 0
  show ?case using assms by simp
next
  case (Suc n)
  let ?s = "fire_times A h n s1"
  have lt: "(4 + n) mod 5 < 5" by simp
  from Suc have a: "serial ?s = Some (ws1 @ concat (map wave_tick_commands [0 ..< n]))"
    and b: "h < length (timers ?s)"
    and c: "timers ?s ! h = Some (WaveTick (int ((4 + n) mod 5)))"
    and d: "FingerWave_timer ?s = FingerWave_timer s1"
    by simp_all
  from FingerWave_tick_connected [OF a b c lt, of A]
  obtain s' where s': "fire A h ?s = Returned s'"
      "serial s' = Some ((ws1 @ concat (map wave_tick_commands [0 ..< n])) @
             [[toInt8 (ArduinoCommand_value (curl_of (((4 + n) mod 5 + 4) mod 5)))],
              [toInt8 (ArduinoCommand_value (relax_of (((4 + n) mod 5 + 1) mod 5)))]])"
      "length (timers s') = length (timers ?s)"
      "timers s' ! h = Some (WaveTick (int (((4 + n) mod 5 + 1) mod 5)))"
      "FingerWave_timer s' = FingerWave_timer ?s"
    by blast
  have e1: "((4 + n) mod 5 + 4) mod 5 = (n + 3) mod 5" by presburger
  have e2: "((4 + n) mod 5 + 1) mod 5 = n mod 5" by presburger
  have e3: "(4 + Suc n) mod 5 = n mod 5" by presburger
  have e4: "Suc ((4 + n) mod 5) mod 5 = n mod 5" by presburger
  show ?case
    unfolding fire_times_Suc s'(1) state_of.simps
    using s'(2-5) b d
    by (simp add: e1 e2 e3 e4 wave_tick_commands_def [of n])
qed

section \<open>The command encoder\<close>

text \<open>
  Claim C10. For every integer command value, \<open>send\<close> on a connected object performs one
  write to the port, of a buffer of exactly one byte; read as a signed 8-bit number the
  byte is the command reduced modulo \<open>2 ^ 8\<close> into the range from \<open>-128\<close> to \<open>127\<close>, so a
  command in that range passes through unchanged. Nothing is buffered or retried: the
  object changes in the console log and in the one appended write only.
\<close>

theorem send_one_signed_byte:
  assumes "serial s = Some ws"
  shows "send command s =
           Returned (s\<lparr>console := console s @ [command],
                      serial := Some (ws @ [[toInt8 command]])\<rparr>) \<and>
         written (state_of (send command s)) = written s @ [[toInt8 command]] \<and>
         sint (toInt8 command) = (command + 128) mod 256 - 128 \<and>
         - 128 \<le> sint (toInt8 command) \<and> sint (toInt8 command) \<le> 127 \<and>
         (- 128 \<le> command \<and> command \<le> 127 \<longrightarrow> sint (toInt8 command) = command)"
proof -
  have "- 128 \<le> sint (toInt8 command) \<and> sint (toInt8 command) \<le> 127"
    unfolding toInt8_sint by presburger
  moreover have "- 128 \<le> command \<and> command \<le> 127 \<longrightarrow> sint (toInt8 command) = command"
    by (simp add: toInt8_sint)
  ultimately show ?thesis
    using assms by (simp add: send_connected written_def toInt8_sint)
qed

theorem send_one_signed_byte_witness:
  "serial connected = Some [[0]] \<and>
   written (state_of (send 200 connected)) = [[0], [toInt8 200]] \<and>
   sint (toInt8 200) = - 56 \<and>
   written (state_of (send 5 connected)) = [[0], [toInt8 5]] \<and>
   sint (toInt8 5) = 5"
proof -
  have c: "serial connected = Some [[0]]" by (simp add: connected_eq)
  have w: "written connected = [[0]]" by (simp add: connected_eq written_def)
  show ?thesis
    using send_one_signed_byte [OF c, of 200] send_one_signed_byte [OF c, of 5] c w
    by (simp add: written_def)
qed

text \<open>
  Claim C5, as the source has it. The enum gives the wrist turn the value 4, not 3, and
  the finger commands the values 5 to 14, not 4 to 13: finger \<open>i\<close> (thumb 0 to pinky 4)
  relaxes with the odd code \<open>2 i + 5\<close> and curls with the even code \<open>2 i + 6\<close>. The
  countdown sends the wrist turn, the value 4. The values of the three move codes belong
  to the imported enum \<open>RPSAction\<close> and are not fixed here.
\<close>

theorem ArduinoCommand_numbering:
  "map ArduinoCommand_value ArduinoCommand_members = [4, 5, 6, 7, 8, 9, 10, 11, 12, 13, 14] \<and>
   set ArduinoCommand_members = UNIV \<and>
   ArduinoCommand_value TurnWrist = 4 \<and>
   map (\<lambda>i. ArduinoCommand_value (relax_of i)) [0 ..< 5] = map (\<lambda>i. 2 * int i + 5) [0 ..< 5] \<and>
   map (\<lambda>i. ArduinoCommand_value (curl_of i)) [0 ..< 5] = map (\<lambda>i. 2 * int i + 6) [0 ..< 5] \<and>
   countdown state s = send 4 s"
proof -
  have "x \<in> set ArduinoCommand_members" for x
    by (cases x) (simp_all add: ArduinoCommand_members_def)
  then have "set ArduinoCommand_members = UNIV" by blast
  moreover have "[0 ..< 5] = [0, 1, 2, 3, 4::nat]" by (simp add: upt_rec)
  ultimately show ?thesis
    by (simp add: ArduinoCommand_members_def relax_of_def curl_of_def countdown_def)
qed

text \<open>
  Claim C5 as stated fails: the wrist turn is not the value 3, the value 4 is not a finger
  code but the wrist turn, and the last finger code, 14, lies outside 4 to 13.
\<close>

theorem wrist_turn_is_not_3:
  "ArduinoCommand_value TurnWrist \<noteq> 3 \<and>
   ArduinoCommand_value PinkyCurl \<notin> {4 .. 13} \<and>
   ArduinoCommand_value TurnWrist \<in> {4 .. 13}"
  by simp

section \<open>The game events\<close>

text \<open>
  Claim C8, as the source has it. On a connected object \<open>robotWin\<close>, \<open>humanWin\<close> and \<open>tie\<close>
  each write the one byte of \<open>Rock\<close>, whatever their arguments, so two calls with
  different arguments have the same effect; \<open>score\<close> does nothing; \<open>shoot\<close> writes the byte
  of the action it is given.
\<close>

theorem outcome_commands:
  assumes "serial s = Some ws"
  shows "written (state_of (robotWin A robot human s)) = ws @ [[toInt8 (Rock A)]] \<and>
         written (state_of (humanWin A robot human s)) = ws @ [[toInt8 (Rock A)]] \<and>
         written (state_of (tie A action s)) = ws @ [[toInt8 (Rock A)]] \<and>
         robotWin A robot human s = robotWin A robot' human' s \<and>
         humanWin A robot human s = humanWin A robot' human' s \<and>
         tie A action s = tie A action' s \<and>
         score n m s = Returned s \<and>
         written (state_of (shoot action s)) = ws @ [[toInt8 action]]"
  using assms
  by (simp add: robotWin_def humanWin_def tie_def score_def shoot_def send_connected written_def)

theorem outcome_commands_witness:
  "serial connected = Some [[0]] \<and>
   written (state_of (robotWin RPSAction_012 1 2 connected)) = [[0], [0]] \<and>
   written (state_of (humanWin RPSAction_012 1 2 connected)) = [[0], [0]] \<and>
   written (state_of (tie RPSAction_012 2 connected)) = [[0], [0]] \<and>
   score 3 4 connected = Returned connected \<and>
   written (state_of (shoot 2 connected)) = [[0], [2]]"
proof -
  have c: "serial connected = Some [[0]]" by (simp add: connected_eq)
  show ?thesis
    using outcome_commands [OF c, where A = RPSAction_012 and robot = 1 and human = 2
            and action = 2 and n = 3 and m = 4] c
    by (simp add: RPSAction_012_def toInt8_def)
qed

text \<open>
  Claim C8 as stated fails for \<open>shoot\<close>: called with two different actions on the same
  object it writes two different bytes.
\<close>

theorem shoot_depends_on_action:
  "written (state_of (shoot 0 connected)) = [[0], [0]] \<and>
   written (state_of (shoot 1 connected)) = [[0], [1]] \<and>
   written (state_of (shoot 0 connected)) \<noteq> written (state_of (shoot 1 connected))"
  by (simp add: shoot_def send_def connected_eq written_def toInt8_def)

section \<open>Entering idle mode\<close>

text \<open>
  Claim C6, as the source has it. On a connected object \<open>idle\<close> always writes the one byte
  of \<open>Paper\<close> first. When the rotation timer exists already that is all it does; otherwise
  it then registers the rotation interval and stores its handle in \<open>idleTimer\<close>.
\<close>

theorem idle_sends_then_starts_timer_once:
  assumes "serial s = Some ws"
  shows "written (state_of (idle A s)) = ws @ [[toInt8 (Paper A)]] \<and>
         (idleTimer s \<noteq> None \<longrightarrow> idle A s = send (Paper A) s) \<and>
         (idleTimer s = None \<longrightarrow>
            idle A s =
              Returned ((state_of (send (Paper A) s))
                 \<lparr>timers := timers s @ [Some RotationTick],
                  idleTimer := Some (length (timers s))\<rparr>))"
  using assms
  by (cases "idleTimer s") (simp_all add: idle_def send_connected written_def setInterval_def)

theorem idle_sends_then_starts_timer_once_witness:
  "serial connected = Some [[0]] \<and> idleTimer connected = None \<and>
   idle RPSAction_012 connected = Returned idling \<and>
   idleTimer idling = Some 0 \<and> timer_at 0 idling = Some RotationTick \<and>
   written idling = [[0], [1]]"
proof -
  have c: "serial connected = Some [[0]]" by (simp add: connected_eq)
  show ?thesis
    using idle_sends_then_starts_timer_once [OF c, of RPSAction_012] c
    by (simp add: idling_eq connected_eq send_def RPSAction_012_def toInt8_def timer_at_def
        written_def)
qed

text \<open>
  Claim C6 as stated fails: with the rotation timer present, a further call of \<open>idle\<close> is
  not a no-op, it writes the byte of \<open>Paper\<close> once more.
\<close>

theorem idle_again_sends_command:
  "idleTimer idling = Some 0 \<and>
   written idling = [[0], [1]] \<and>
   written (state_of (idle RPSAction_012 idling)) = [[0], [1], [1]] \<and>
   idle RPSAction_012 idling \<noteq> Returned idling"
  by (simp add: idling_eq idle_def send_def written_def RPSAction_012_def toInt8_def)

section \<open>Stopping\<close>

text \<open>
  Claim C9, as the source has it. \<open>cleanup\<close> of the wrist turn does nothing. \<open>cleanup\<close> of
  the gesture cycle writes nothing, never throws, does nothing when no timer is owned, and
  after it a second call does nothing. \<open>cleanup\<close> of the finger wave, on a connected
  object, never throws and leaves no timer owned, and a second call leaves the interval
  table as it is; but every call of it, the first as the second, started or not, writes
  the one byte of \<open>Paper\<close>. (Each call also enters the call trace.)
\<close>

theorem cleanup_effects:
  "TurnWristAnimation_cleanup s = Returned (called (CallCleanup TurnWristAnim) s) \<and>
   (CycleGestures_timer s = None \<longrightarrow>
      CycleGesturesAnimation_cleanup s = Returned (called (CallCleanup CycleGestures) s)) \<and>
   (\<exists>s'. CycleGesturesAnimation_cleanup s = Returned s' \<and> CycleGestures_timer s' = None \<and>
         written s' = written s \<and>
         CycleGesturesAnimation_cleanup s' = Returned (called (CallCleanup CycleGestures) s')) \<and>
   (serial s \<noteq> None \<longrightarrow>
      (\<exists>s' s''. FingerWaveAnimation_cleanup A s = Returned s' \<and>
          written s' = written s @ [[toInt8 (Paper A)]] \<and> FingerWave_timer s' = None \<and>
          FingerWaveAnimation_cleanup A s' = Returned s'' \<and>
          written s'' = written s' @ [[toInt8 (Paper A)]] \<and>
          timers s'' = timers s' \<and> FingerWave_timer s'' = None))"
proof -
  have 1: "TurnWristAnimation_cleanup s = Returned (called (CallCleanup TurnWristAnim) s)"
    by (simp add: TurnWristAnimation_cleanup_def)
  have 2: "CycleGestures_timer s = None \<longrightarrow>
      CycleGesturesAnimation_cleanup s = Returned (called (CallCleanup CycleGestures) s)"
    by (simp add: CycleGesturesAnimation_cleanup_def called_def)
  have 3: "\<exists>s'. CycleGesturesAnimation_cleanup s = Returned s' \<and> CycleGestures_timer s' = None \<and>
         written s' = written s \<and>
         CycleGesturesAnimation_cleanup s' = Returned (called (CallCleanup CycleGestures) s')"
    by (cases "CycleGestures_timer s")
       (simp_all add: CycleGesturesAnimation_cleanup_def called_def clearInterval_def written_def)
  have 4: "\<exists>s' s''. FingerWaveAnimation_cleanup A s = Returned s' \<and>
          written s' = written s @ [[toInt8 (Paper A)]] \<and> FingerWave_timer s' = None \<and>
          FingerWaveAnimation_cleanup A s' = Returned s'' \<and>
          written s'' = written s' @ [[toInt8 (Paper A)]] \<and>
          timers s'' = timers s' \<and> FingerWave_timer s'' = None"
    if "serial s \<noteq> None"
  proof -
    from that obtain ws where "serial s = Some ws" by auto
    then show ?thesis
      by (cases "FingerWave_timer s")
         (simp_all add: FingerWaveAnimation_cleanup_def called_def send_def clearInterval_def
            written_def)
  qed
  from 1 2 3 4 show ?thesis by blast
qed

theorem cleanup_effects_witness:
  "CycleGestures_timer connected = None \<and> serial connected \<noteq> None \<and>
   TurnWristAnimation_cleanup connected = Returned (called (CallCleanup TurnWristAnim) connected) \<and>
   CycleGesturesAnimation_cleanup connected =
     Returned (called (CallCleanup CycleGestures) connected) \<and>
   written (state_of (FingerWaveAnimation_cleanup RPSAction_012 connected)) = [[0], [1]]"
proof -
  have c: "CycleGestures_timer connected = None" "serial connected \<noteq> None"
    "written connected = [[0]]"
    by (simp_all add: connected_eq written_def)
  show ?thesis
    using cleanup_effects [of connected RPSAction_012] c
    by (auto simp add: RPSAction_012_def toInt8_def)
qed

text \<open>
  Claim C9 as stated fails for the finger wave: its \<open>cleanup\<close>, called on an object where
  the wave was never started, writes a byte, and called a second time writes another.
\<close>

theorem FingerWave_cleanup_sends_every_time:
  "FingerWave_timer connected = None \<and>
   written connected = [[0]] \<and>
   written (state_of (FingerWaveAnimation_cleanup RPSAction_012 connected)) = [[0], [1]] \<and>
   written (state_of (FingerWaveAnimation_cleanup RPSAction_012
      (state_of (FingerWaveAnimation_cleanup RPSAction_012 connected)))) = [[0], [1], [1]]"
  by (simp add: connected_eq FingerWaveAnimation_cleanup_def called_def send_def written_def
      RPSAction_012_def toInt8_def)


section \<open>The animations\<close>

text \<open>
  Claim C3. With the members of \<open>RPSAction\<close> numbered in a row, \<open>CycleGesturesAnimation.do\<close>
  on a connected object writes the byte of rock and registers an interval; the first tick
  of that interval writes the byte of paper and leaves the interval scheduled, the second
  writes the byte of scissors and clears the interval and the \<open>timer\<close> field, with no call
  of \<open>cleanup\<close> from outside. From then on the interval cannot fire: after any number of
  further ticks the object is the same, so exactly three bytes are written, in the order
  rock, paper, scissors.
\<close>

theorem CycleGestures_runs_once:
  assumes "serial s = Some ws" and "consecutive A"
  shows "\<exists>s1 s2 s3.
           CycleGesturesAnimation_do A s = Returned s1 \<and>
           fire A (length (timers s)) s1 = Returned s2 \<and>
           fire A (length (timers s)) s2 = Returned s3 \<and>
           written s1 = ws @ [[toInt8 (Rock A)]] \<and>
           written s2 = ws @ [[toInt8 (Rock A)], [toInt8 (Paper A)]] \<and>
           written s3 = ws @ [[toInt8 (Rock A)], [toInt8 (Paper A)], [toInt8 (Scissors A)]] \<and>
           timer_at (length (timers s)) s1 \<noteq> None \<and>
           timer_at (length (timers s)) s2 \<noteq> None \<and>
           timer_at (length (timers s)) s3 = None \<and>
           CycleGestures_timer s3 = None \<and>
           (\<forall>n. fire_times A (length (timers s)) (n + 2) s1 = s3)"
proof -
  let ?h = "length (timers s)"
  from assms(2) have P: "Rock A + 1 = Paper A" and S: "Paper A + 1 = Scissors A"
    and N: "\<not> Scissors A \<le> Paper A"
    by (simp_all add: consecutive_def)
  from CycleGestures_do_connected [OF assms(1), of A]
  obtain s1 where s1: "CycleGesturesAnimation_do A s = Returned s1"
      "serial s1 = Some (ws @ [[toInt8 (Rock A)]])"
      "CycleGestures_timer s1 = Some ?h"
      "timers s1 = timers s @ [Some (CycleTick (Rock A))]"
    by blast
  have h1: "?h < length (timers s1)" "timers s1 ! ?h = Some (CycleTick (Rock A))"
    by (simp_all add: s1(4))
  from CycleGestures_tick_connected [OF s1(2) h1 s1(3), of A]
  obtain s2 where s2: "fire A ?h s1 = Returned s2"
      "serial s2 = Some (ws @ [[toInt8 (Rock A)], [toInt8 (Paper A)]])"
      "length (timers s2) = length (timers s1)"
      "CycleGestures_timer s2 = Some ?h" "timers s2 ! ?h = Some (CycleTick (Paper A))"
    by (auto simp add: P N)
  have h2: "?h < length (timers s2)"
    by (simp add: s2(3) s1(4))
  from CycleGestures_tick_connected [OF s2(2) h2 s2(5) s2(4), of A]
  obtain s3 where s3: "fire A ?h s2 = Returned s3"
      "serial s3 = Some (ws @ [[toInt8 (Rock A)], [toInt8 (Paper A)], [toInt8 (Scissors A)]])"
      "length (timers s3) = length (timers s2)"
      "CycleGestures_timer s3 = None" "timers s3 ! ?h = None"
    by (auto simp add: S)
  have dead: "timer_at ?h s3 = None"
    by (simp add: timer_at_def s3(5))
  have "fire_times A ?h (n + 2) s1 = s3" for n
    using fire_times_dead [OF dead, of A n] by (simp add: s2(1) s3(1))
  then show ?thesis
    using s1 s2 s3 h1 h2 dead by (simp add: written_def timer_at_def)
qed

theorem CycleGestures_runs_once_witness:
  "serial connected = Some [[0]] \<and> consecutive RPSAction_012 \<and>
   written (fire_times RPSAction_012 0 2
      (state_of (CycleGesturesAnimation_do RPSAction_012 connected))) = [[0], [0], [1], [2]] \<and>
   timer_at 0 (fire_times RPSAction_012 0 2
      (state_of (CycleGesturesAnimation_do RPSAction_012 connected))) = None \<and>
   fire_times RPSAction_012 0 7 (state_of (CycleGesturesAnimation_do RPSAction_012 connected)) =
   fire_times RPSAction_012 0 2 (state_of (CycleGesturesAnimation_do RPSAction_012 connected))"
proof -
  have c: "serial connected = Some [[0]]" and k: "consecutive RPSAction_012"
    and t: "length (timers connected) = 0"
    by (simp_all add: connected_eq consecutive_def RPSAction_012_def)
  from CycleGestures_runs_once [OF c k]
  obtain s1 s3 where
    "CycleGesturesAnimation_do RPSAction_012 connected = Returned s1"
    "written s3 = [[0], [0], [1], [2]]"
    "timer_at 0 s3 = None"
    "\<forall>n. fire_times RPSAction_012 0 (n + 2) s1 = s3"
    by (auto simp add: t RPSAction_012_def toInt8_def)
  moreover from this have "fire_times RPSAction_012 0 (0 + 2) s1 = s3"
    "fire_times RPSAction_012 0 (5 + 2) s1 = s3"
    by blast+
  ultimately show ?thesis
    using c k by (simp add: numeral_2_eq_2)
qed

text \<open>
  Claim C4, as the source has it. \<open>FingerWaveAnimation.do\<close> on a connected object writes
  the byte of \<open>Rock\<close> and registers an interval whose finger index starts at 4. Tick number
  \<open>k\<close> of the interval (counted from 0) writes two bytes: first the curl command of the
  finger before the current index, finger \<open>(k + 3) mod 5\<close>, then the relax command of the
  finger after it, finger \<open>k mod 5\<close>, which becomes the new index (4 wraps to 0). The
  interval is still scheduled after any number of ticks. \<open>cleanup\<close> at any such moment
  writes the one byte of \<open>Paper\<close> and clears the interval and the \<open>timer\<close> field.
\<close>

theorem FingerWave_behaviour:
  assumes "serial s = Some ws"
  shows "returned (FingerWaveAnimation_do A s) \<and>
         written (wave_after A 0 s) = ws @ [[toInt8 (Rock A)]] \<and>
         FingerWave_timer (wave_after A 0 s) = Some (length (timers s)) \<and>
         timer_at (length (timers s)) (wave_after A 0 s) = Some (WaveTick 4) \<and>
         (\<forall>n. written (wave_after A n s) =
                ws @ [toInt8 (Rock A)] # concat (map wave_tick_commands [0 ..< n]) \<and>
              timer_at (length (timers s)) (wave_after A n s) =
                Some (WaveTick (int ((4 + n) mod 5))) \<and>
              returned (fire A (length (timers s)) (wave_after A n s)) \<and>
              returned (FingerWaveAnimation_cleanup A (wave_after A n s)) \<and>
              written (state_of (FingerWaveAnimation_cleanup A (wave_after A n s))) =
                written (wave_after A n s) @ [[toInt8 (Paper A)]] \<and>
              timer_at (length (timers s))
                (state_of (FingerWaveAnimation_cleanup A (wave_after A n s))) = None \<and>
              FingerWave_timer (state_of (FingerWaveAnimation_cleanup A (wave_after A n s))) =
                None)"
proof -
  let ?h = "length (timers s)"
  from FingerWave_do_connected [OF assms, of A]
  obtain s1 where s1: "FingerWaveAnimation_do A s = Returned s1"
      "serial s1 = Some (ws @ [[toInt8 (Rock A)]])"
      "FingerWave_timer s1 = Some ?h"
      "timers s1 = timers s @ [Some (WaveTick 4)]"
    by blast
  have h1: "?h < length (timers s1)" "timers s1 ! ?h = Some (WaveTick 4)"
    by (simp_all add: s1(4))
  have w: "wave_after A n s = fire_times A ?h n s1" for n
    by (simp add: wave_after_def s1(1))
  have ticks: "serial (wave_after A n s) =
        Some (ws @ [toInt8 (Rock A)] # concat (map wave_tick_commands [0 ..< n]))"
      "?h < length (timers (wave_after A n s))"
      "timers (wave_after A n s) ! ?h = Some (WaveTick (int ((4 + n) mod 5)))"
      "FingerWave_timer (wave_after A n s) = Some ?h" for n
    using FingerWave_ticks [OF s1(2) h1, of A n] s1(3) unfolding w by simp_all
  have a: "written (wave_after A n s) =
        ws @ [toInt8 (Rock A)] # concat (map wave_tick_commands [0 ..< n])" for n
    by (simp add: written_def ticks(1))
  have b: "timer_at ?h (wave_after A n s) = Some (WaveTick (int ((4 + n) mod 5)))" for n
    by (simp add: timer_at_def ticks(2,3))
  have c: "returned (fire A ?h (wave_after A n s))" for n
  proof -
    have "(4 + n) mod 5 < 5" by simp
    from FingerWave_tick_connected [OF ticks(1) ticks(2) ticks(3) this, of A]
    show ?thesis by auto
  qed
  have d: "returned (FingerWaveAnimation_cleanup A (wave_after A n s)) \<and>
      written (state_of (FingerWaveAnimation_cleanup A (wave_after A n s))) =
        written (wave_after A n s) @ [[toInt8 (Paper A)]] \<and>
      timer_at ?h (state_of (FingerWaveAnimation_cleanup A (wave_after A n s))) = None \<and>
      FingerWave_timer (state_of (FingerWaveAnimation_cleanup A (wave_after A n s))) = None"
    for n
    using ticks [of n]
    by (simp add: written_def timer_at_def FingerWaveAnimation_cleanup_def send_def called_def
        clearInterval_def)
  have e: "returned (FingerWaveAnimation_do A s)"
    by (simp add: s1(1))
  have f: "written (wave_after A 0 s) = ws @ [[toInt8 (Rock A)]]"
    using a [of 0] by simp
  have g: "FingerWave_timer (wave_after A 0 s) = Some ?h"
    by (rule ticks(4))
  have h: "timer_at ?h (wave_after A 0 s) = Some (WaveTick 4)"
    using b [of 0] by simp
  from a b c d e f g h show ?thesis by blast
qed

theorem FingerWave_behaviour_witness:
  "serial connected = Some [[0]] \<and>
   written (wave_after RPSAction_012 0 connected) = [[0], [0]] \<and>
   written (wave_after RPSAction_012 2 connected) = [[0], [0], [12], [5], [14], [7]] \<and>
   timer_at 0 (wave_after RPSAction_012 2 connected) = Some (WaveTick 1) \<and>
   written (state_of (FingerWaveAnimation_cleanup RPSAction_012
      (wave_after RPSAction_012 2 connected))) = [[0], [0], [12], [5], [14], [7], [1]]"
proof -
  have c: "serial connected = Some [[0]]" and t: "length (timers connected) = 0"
    by (simp_all add: connected_eq)
  have u: "[0 ..< 2] = [0, 1::nat]" by (simp add: upt_rec)
  have R: "Rock RPSAction_012 = 0" "Paper RPSAction_012 = 1"
    by (simp_all add: RPSAction_012_def)
  show ?thesis
    using FingerWave_behaviour [OF c, of RPSAction_012] c
    unfolding t
    by (simp add: u R wave_tick_commands_def curl_of_def relax_of_def toInt8_def)
qed

text \<open>
  Claim C4 as stated fails on the tick: the first tick of a wave sends the curl command of
  the ring finger and then the relax command of the thumb. That is not a relax command
  for one finger with a curl command for the next finger, in either order.
\<close>

theorem first_wave_tick_curls_ring_relaxes_thumb:
  "timer_at 1 waving = Some (WaveTick 4) \<and>
   written (state_of (fire RPSAction_012 1 waving)) =
     written waving @ [[toInt8 (ArduinoCommand_value RingCurl)],
                       [toInt8 (ArduinoCommand_value ThumbRelax)]] \<and>
   console (state_of (fire RPSAction_012 1 waving)) =
     console waving @ [ArduinoCommand_value RingCurl, ArduinoCommand_value ThumbRelax] \<and>
   [ArduinoCommand_value RingCurl, ArduinoCommand_value ThumbRelax]
     \<notin> set (map spec_wave_tick [0, 1, 2, 3, 4]) \<and>
   [ArduinoCommand_value ThumbRelax, ArduinoCommand_value RingCurl]
     \<notin> set (map spec_wave_tick [0, 1, 2, 3, 4])"
  by (simp add: waving_eq fire_def timer_at_def FingerWaveAnimation_tick_def send_def js_rem_def
      written_def spec_wave_tick_def relax_of_def curl_of_def)

section \<open>The scheduler keeps its invariant\<close>

lemma started_not_stopped_snoc:
  "started_not_stopped (cs @ [c]) acc =
     (case c of CallDo a \<Rightarrow> a # started_not_stopped cs acc
      | CallCleanup a \<Rightarrow> remove1 a (started_not_stopped cs acc))"
  by (induction cs acc rule: started_not_stopped.induct) (simp_all split: call.split)

lemma timers_ownedD:
  "timers_owned s \<Longrightarrow> h < length (timers s) \<Longrightarrow> timers s ! h = Some c \<Longrightarrow> owner s c = Some h"
  by (simp add: timers_owned_def)

lemma owner_simps [simp]:
  "owner s RotationTick = idleTimer s"
  "owner s (CycleTick a) = CycleGestures_timer s"
  "owner s (WaveTick f) = FingerWave_timer s"
  by (simp_all add: owner_def)

lemma owner_cong:
  "idleTimer s' = idleTimer s \<Longrightarrow> CycleGestures_timer s' = CycleGestures_timer s \<Longrightarrow>
   FingerWave_timer s' = FingerWave_timer s \<Longrightarrow> owner s' c = owner s c"
  by (cases c) simp_all

lemma nothing_running_idleCurrent [simp]:
  "nothing_running (s\<lparr>idleCurrent := c\<rparr>) = nothing_running s"
  by (simp add: nothing_running_def timers_owned_def owner_cong [of "s\<lparr>idleCurrent := c\<rparr>" s])

lemma animation_at_cases:
  "animation_at i = Some a \<Longrightarrow>
   (i = 0 \<and> a = FingerWave) \<or> (i = 1 \<and> a = TurnWristAnim) \<or> (i = 2 \<and> a = CycleGestures)"
proof -
  assume a: "animation_at i = Some a"
  then have "0 \<le> i \<and> i < 3"
    by (simp add: animation_at_def idleAnimations_def split: if_splits)
  then have "i = 0 \<or> i = 1 \<or> i = 2" by arith
  with a show ?thesis
    by (auto simp add: animation_at_def idleAnimations_def)
qed

lemma animation_at_next:
  "animation_at i = Some a \<Longrightarrow>
   \<exists>a'. animation_at (js_rem (i + 1) (int (length idleAnimations))) = Some a'"
  by (drule animation_at_cases) (auto simp add: animation_at_def idleAnimations_def js_rem_def)

lemma animation_at_first:
  "animation_at (js_rem (- 1 + 1) (int (length idleAnimations))) = Some FingerWave"
  by (simp add: animation_at_def idleAnimations_def js_rem_def)

text \<open>Clearing the slot a timer field points to, and the field.\<close>

lemma timers_owned_clear:
  assumes "timers_owned s" and "timers s' = (timers s)[h := None]"
    and "\<And>c. owner s c \<noteq> Some h \<Longrightarrow> owner s' c = owner s c"
  shows "timers_owned s'"
  unfolding timers_owned_def
proof (intro allI impI)
  fix k c
  assume k: "k < length (timers s')" and c: "timers s' ! k = Some c"
  from k have k': "k < length (timers s)" by (simp add: assms(2))
  from c k' have ne: "k \<noteq> h"
    by (auto simp add: assms(2))
  with c have c': "timers s ! k = Some c"
    by (simp add: assms(2))
  from timers_ownedD [OF assms(1) k' c'] have "owner s c = Some k" .
  with ne assms(3) [of c] show "owner s' c = Some k" by simp
qed

lemma timers_owned_same:
  assumes "timers_owned s" and "timers s' = timers s"
    and "\<And>c. owner s' c = owner s c"
  shows "timers_owned s'"
  using assms by (simp add: timers_owned_def)

lemma timers_owned_new:
  assumes "timers_owned s" and "timers s' = timers s @ [Some c]"
    and "owner s' c = Some (length (timers s))"
    and "\<And>c'. owner s c' \<noteq> None \<Longrightarrow> owner s' c' = owner s c'"
  shows "timers_owned s'"
  unfolding timers_owned_def
proof (intro allI impI)
  fix k d
  assume k: "k < length (timers s')" and d: "timers s' ! k = Some d"
  show "owner s' d = Some k"
  proof (cases "k < length (timers s)")
    case True
    with d have "timers s ! k = Some d" by (simp add: assms(2) nth_append)
    from timers_ownedD [OF assms(1) True this] have "owner s d = Some k" .
    with assms(4) [of d] show ?thesis by simp
  next
    case False
    with k have "k = length (timers s)" by (simp add: assms(2))
    with d assms(3) show ?thesis by (simp add: assms(2))
  qed
qed

lemma timers_owned_update:
  assumes "timers_owned s" and "timers s' = (timers s)[h := Some c]"
    and "h < length (timers s)" and "timers s ! h = Some c0" and "owner s' c = owner s c0"
    and "\<And>c'. owner s' c' = owner s c'"
  shows "timers_owned s'"
  unfolding timers_owned_def
proof (intro allI impI)
  fix k d
  assume k: "k < length (timers s')" and d: "timers s' ! k = Some d"
  from k have k': "k < length (timers s)" by (simp add: assms(2))
  show "owner s' d = Some k"
  proof (cases "k = h")
    case True
    with d k' have "d = c" by (simp add: assms(2))
    moreover from timers_ownedD [OF assms(1) assms(3) assms(4)] have "owner s c0 = Some h" .
    ultimately show ?thesis using True assms(5) by simp
  next
    case False
    with d have "timers s ! k = Some d" by (simp add: assms(2))
    from timers_ownedD [OF assms(1) k' this] assms(6) [of d] show ?thesis by simp
  qed
qed


lemma send_inv_fields:
  assumes "serial s = Some ws"
  shows "\<exists>s'. send c s = Returned s' \<and> serial s' = Some (ws @ [[toInt8 c]]) \<and>
           idleTimer s' = idleTimer s \<and> idleCurrent s' = idleCurrent s \<and>
           FingerWave_timer s' = FingerWave_timer s \<and>
           CycleGestures_timer s' = CycleGestures_timer s \<and>
           timers s' = timers s \<and> calls s' = calls s"
  using assms by (simp add: send_def)

lemma timers_owned_send:
  assumes "timers_owned s" and "send c s = Returned s'"
  shows "timers_owned s'"
proof -
  from assms(2) have "timers s' = timers s" "idleTimer s' = idleTimer s"
    "CycleGestures_timer s' = CycleGestures_timer s" "FingerWave_timer s' = FingerWave_timer s"
    by (auto simp add: send_def Let_def split: option.splits)
  with assms(1) show ?thesis
    by (intro timers_owned_same [of s s'] owner_cong) simp_all
qed

lemma FingerWave_cleanup_fields:
  assumes "serial s = Some ws"
  shows "\<exists>s'. FingerWaveAnimation_cleanup A s = Returned s' \<and>
           serial s' = Some (ws @ [[toInt8 (Paper A)]]) \<and>
           timers s' = (case FingerWave_timer s of None \<Rightarrow> timers s
                        | Some h \<Rightarrow> (timers s)[h := None]) \<and>
           idleTimer s' = idleTimer s \<and> idleCurrent s' = idleCurrent s \<and>
           FingerWave_timer s' = None \<and>
           CycleGestures_timer s' = CycleGestures_timer s \<and>
           calls s' = calls s @ [CallCleanup FingerWave]"
  using assms
  by (cases "FingerWave_timer s")
     (simp_all add: FingerWaveAnimation_cleanup_def send_def called_def clearInterval_def)

lemma CycleGestures_cleanup_fields:
  "\<exists>s'. CycleGesturesAnimation_cleanup s = Returned s' \<and>
        serial s' = serial s \<and>
        timers s' = (case CycleGestures_timer s of None \<Rightarrow> timers s
                     | Some h \<Rightarrow> (timers s)[h := None]) \<and>
        idleTimer s' = idleTimer s \<and> idleCurrent s' = idleCurrent s \<and>
        FingerWave_timer s' = FingerWave_timer s \<and>
        CycleGestures_timer s' = None \<and>
        calls s' = calls s @ [CallCleanup CycleGestures]"
  by (cases "CycleGestures_timer s")
     (simp_all add: CycleGesturesAnimation_cleanup_def called_def clearInterval_def)

lemma TurnWrist_cleanup_fields:
  "\<exists>s'. TurnWristAnimation_cleanup s = Returned s' \<and>
        serial s' = serial s \<and> timers s' = timers s \<and>
        idleTimer s' = idleTimer s \<and> idleCurrent s' = idleCurrent s \<and>
        FingerWave_timer s' = FingerWave_timer s \<and>
        CycleGestures_timer s' = CycleGestures_timer s \<and>
        calls s' = calls s @ [CallCleanup TurnWristAnim]"
  by (simp add: TurnWristAnimation_cleanup_def called_def)

text \<open>Clearing the slot of a timer field together with the field keeps the table owned.\<close>

lemma timers_owned_cleared:
  assumes "timers_owned s"
    and "timers s' = (case t of None \<Rightarrow> timers s | Some h \<Rightarrow> (timers s)[h := None])"
    and "\<And>c. owner s c \<noteq> t \<Longrightarrow> owner s' c = owner s c"
  shows "timers_owned s'"
proof (cases t)
  case None
  show ?thesis
    unfolding timers_owned_def
  proof (intro allI impI)
    fix k c
    assume k: "k < length (timers s')" and c: "timers s' ! k = Some c"
    with None assms(2) have "k < length (timers s)" "timers s ! k = Some c" by simp_all
    from timers_ownedD [OF assms(1) this] have "owner s c = Some k" .
    with None assms(3) [of c] show "owner s' c = Some k" by simp
  qed
next
  case (Some h)
  with assms(2) have "timers s' = (timers s)[h := None]" by simp
  moreover have "owner s' c = owner s c" if "owner s c \<noteq> Some h" for c
    using that assms(3) [of c] Some by simp
  ultimately show ?thesis
    using assms(1) by (intro timers_owned_clear [of s s' h])
qed

text \<open>Stopping the current animation leaves nothing running.\<close>

lemma cleanup_current:
  assumes "scheduler_inv s" and "idleCurrent s = Some i" and "animation_at i = Some a"
  shows "\<exists>s'. animation_cleanup A a s = Returned s' \<and> nothing_running s' \<and>
           idleCurrent s' = idleCurrent s \<and> idleTimer s' = idleTimer s \<and>
           written s' = written s @ (if a = FingerWave then [[toInt8 (Paper A)]] else [])"
proof -
  from assms(1) obtain ws where ws: "serial s = Some ws" and own: "timers_owned s"
    and cur: "current_consistent s"
    by (auto simp add: scheduler_inv_def)
  from cur assms(2,3) have
    w: "FingerWave_timer s = None \<or> a = FingerWave" and
    c: "CycleGestures_timer s = None \<or> a = CycleGestures" and
    o: "started_not_stopped (calls s) [] = [] \<or> started_not_stopped (calls s) [] = [a]"
    by (auto simp add: current_consistent_def current_animation_def)
  show ?thesis
  proof (cases a)
    case FingerWave
    with c have ct: "CycleGestures_timer s = None" by simp
    from FingerWave_cleanup_fields [OF ws, of A]
    obtain s' where r: "FingerWaveAnimation_cleanup A s = Returned s'"
      and f: "serial s' = Some (ws @ [[toInt8 (Paper A)]])"
        "timers s' = (case FingerWave_timer s of None \<Rightarrow> timers s
                        | Some h \<Rightarrow> (timers s)[h := None])"
        "idleTimer s' = idleTimer s" "idleCurrent s' = idleCurrent s"
        "FingerWave_timer s' = None" "CycleGestures_timer s' = CycleGestures_timer s"
        "calls s' = calls s @ [CallCleanup FingerWave]"
      by blast
    have "timers_owned s'"
    proof (rule timers_owned_cleared [OF own f(2)])
      show "owner s' c = owner s c" if "owner s c \<noteq> FingerWave_timer s" for c
        using that f(3,5,6) by (cases c) simp_all
    qed
    moreover have "started_not_stopped (calls s') [] = []"
      using o FingerWave by (auto simp add: f(7) started_not_stopped_snoc)
    ultimately have "nothing_running s'"
      by (simp add: nothing_running_def f ct)
    moreover have "written s' = written s @ [[toInt8 (Paper A)]]"
      by (simp add: written_def f ws)
    ultimately show ?thesis
      using r f(3,4) FingerWave by simp
  next
    case TurnWristAnim
    with w c have wt: "FingerWave_timer s = None" and ct: "CycleGestures_timer s = None"
      by simp_all
    from TurnWrist_cleanup_fields [of s]
    obtain s' where r: "TurnWristAnimation_cleanup s = Returned s'"
      and f: "serial s' = serial s" "timers s' = timers s"
        "idleTimer s' = idleTimer s" "idleCurrent s' = idleCurrent s"
        "FingerWave_timer s' = FingerWave_timer s"
        "CycleGestures_timer s' = CycleGestures_timer s"
        "calls s' = calls s @ [CallCleanup TurnWristAnim]"
      by blast
    have "timers_owned s'"
      using own f(2) by (rule timers_owned_same) (simp add: owner_cong [of s' s] f)
    moreover have "started_not_stopped (calls s') [] = []"
      using o TurnWristAnim by (auto simp add: f(7) started_not_stopped_snoc)
    ultimately have "nothing_running s'"
      by (simp add: nothing_running_def f ws wt ct)
    moreover have "written s' = written s"
      by (simp add: written_def f)
    ultimately show ?thesis
      using r f(3,4) TurnWristAnim by simp
  next
    case CycleGestures
    with w have wt: "FingerWave_timer s = None" by simp
    from CycleGestures_cleanup_fields [of s]
    obtain s' where r: "CycleGesturesAnimation_cleanup s = Returned s'"
      and f: "serial s' = serial s"
        "timers s' = (case CycleGestures_timer s of None \<Rightarrow> timers s
                     | Some h \<Rightarrow> (timers s)[h := None])"
        "idleTimer s' = idleTimer s" "idleCurrent s' = idleCurrent s"
        "FingerWave_timer s' = FingerWave_timer s"
        "CycleGestures_timer s' = None"
        "calls s' = calls s @ [CallCleanup CycleGestures]"
      by blast
    have "timers_owned s'"
    proof (rule timers_owned_cleared [OF own f(2)])
      show "owner s' c = owner s c" if "owner s c \<noteq> CycleGestures_timer s" for c
        using that f(3,5,6) by (cases c) simp_all
    qed
    moreover have "started_not_stopped (calls s') [] = []"
      using o CycleGestures by (auto simp add: f(7) started_not_stopped_snoc)
    ultimately have "nothing_running s'"
      by (simp add: nothing_running_def f ws wt)
    moreover have "written s' = written s"
      by (simp add: written_def f)
    ultimately show ?thesis
      using r f(3,4) CycleGestures by simp
  qed
qed


lemma FingerWave_do_fields:
  assumes "serial s = Some ws"
  shows "\<exists>s'. FingerWaveAnimation_do A s = Returned s' \<and>
           serial s' = Some (ws @ [[toInt8 (Rock A)]]) \<and>
           timers s' = timers s @ [Some (WaveTick 4)] \<and>
           idleTimer s' = idleTimer s \<and> idleCurrent s' = idleCurrent s \<and>
           FingerWave_timer s' = Some (length (timers s)) \<and>
           CycleGestures_timer s' = CycleGestures_timer s \<and>
           calls s' = calls s @ [CallDo FingerWave]"
  using assms
  by (simp add: FingerWaveAnimation_do_def send_def called_def setInterval_def Let_def)

lemma CycleGestures_do_fields:
  assumes "serial s = Some ws"
  shows "\<exists>s'. CycleGesturesAnimation_do A s = Returned s' \<and>
           serial s' = Some (ws @ [[toInt8 (Rock A)]]) \<and>
           timers s' = timers s @ [Some (CycleTick (Rock A))] \<and>
           idleTimer s' = idleTimer s \<and> idleCurrent s' = idleCurrent s \<and>
           FingerWave_timer s' = FingerWave_timer s \<and>
           CycleGestures_timer s' = Some (length (timers s)) \<and>
           calls s' = calls s @ [CallDo CycleGestures]"
  using assms
  by (simp add: CycleGesturesAnimation_do_def send_def called_def setInterval_def Let_def)

lemma TurnWrist_do_fields:
  assumes "serial s = Some ws"
  shows "\<exists>s'. TurnWristAnimation_do s = Returned s' \<and>
           serial s' = Some (ws @ [[toInt8 (ArduinoCommand_value TurnWrist)]]) \<and>
           timers s' = timers s \<and>
           idleTimer s' = idleTimer s \<and> idleCurrent s' = idleCurrent s \<and>
           FingerWave_timer s' = FingerWave_timer s \<and>
           CycleGestures_timer s' = CycleGestures_timer s \<and>
           calls s' = calls s @ [CallDo TurnWristAnim]"
  using assms
  by (simp add: TurnWristAnimation_do_def send_def called_def)

text \<open>Starting an animation when nothing is running.\<close>

lemma do_next:
  assumes "nothing_running s"
  shows "\<exists>s'. animation_do A a s = Returned s' \<and> serial s' \<noteq> None \<and> timers_owned s' \<and>
           idleCurrent s' = idleCurrent s \<and> idleTimer s' = idleTimer s \<and>
           (FingerWave_timer s' = None \<or> a = FingerWave) \<and>
           (CycleGestures_timer s' = None \<or> a = CycleGestures) \<and>
           started_not_stopped (calls s') [] = [a]"
proof -
  from assms obtain ws where ws: "serial s = Some ws" and own: "timers_owned s"
    and wt: "FingerWave_timer s = None" and ct: "CycleGestures_timer s = None"
    and o: "started_not_stopped (calls s) [] = []"
    by (auto simp add: nothing_running_def)
  show ?thesis
  proof (cases a)
    case FingerWave
    from FingerWave_do_fields [OF ws, of A]
    obtain s' where r: "FingerWaveAnimation_do A s = Returned s'"
      and f: "serial s' = Some (ws @ [[toInt8 (Rock A)]])"
        "timers s' = timers s @ [Some (WaveTick 4)]"
        "idleTimer s' = idleTimer s" "idleCurrent s' = idleCurrent s"
        "FingerWave_timer s' = Some (length (timers s))"
        "CycleGestures_timer s' = CycleGestures_timer s"
        "calls s' = calls s @ [CallDo FingerWave]"
      by blast
    have "timers_owned s'"
    proof (rule timers_owned_new [OF own f(2)])
      show "owner s' (WaveTick 4) = Some (length (timers s))" by (simp add: f(5))
      show "owner s' c = owner s c" if "owner s c \<noteq> None" for c
        using that f(3,6) wt by (cases c) simp_all
    qed
    moreover have "started_not_stopped (calls s') [] = [a]"
      using o FingerWave by (simp add: f(7) started_not_stopped_snoc)
    ultimately show ?thesis
      using r f(1,3,4,6) ct FingerWave by simp
  next
    case TurnWristAnim
    from TurnWrist_do_fields [OF ws]
    obtain s' where r: "TurnWristAnimation_do s = Returned s'"
      and f: "serial s' = Some (ws @ [[toInt8 (ArduinoCommand_value TurnWrist)]])"
        "timers s' = timers s"
        "idleTimer s' = idleTimer s" "idleCurrent s' = idleCurrent s"
        "FingerWave_timer s' = FingerWave_timer s"
        "CycleGestures_timer s' = CycleGestures_timer s"
        "calls s' = calls s @ [CallDo TurnWristAnim]"
      by blast
    have "timers_owned s'"
      using own f(2) by (rule timers_owned_same) (simp add: owner_cong [of s' s] f)
    moreover have "started_not_stopped (calls s') [] = [a]"
      using o TurnWristAnim by (simp add: f(7) started_not_stopped_snoc)
    ultimately show ?thesis
      using r f(1,3,4,5,6) wt ct TurnWristAnim by simp
  next
    case CycleGestures
    from CycleGestures_do_fields [OF ws, of A]
    obtain s' where r: "CycleGesturesAnimation_do A s = Returned s'"
      and f: "serial s' = Some (ws @ [[toInt8 (Rock A)]])"
        "timers s' = timers s @ [Some (CycleTick (Rock A))]"
        "idleTimer s' = idleTimer s" "idleCurrent s' = idleCurrent s"
        "FingerWave_timer s' = FingerWave_timer s"
        "CycleGestures_timer s' = Some (length (timers s))"
        "calls s' = calls s @ [CallDo CycleGestures]"
      by blast
    have "timers_owned s'"
    proof (rule timers_owned_new [OF own f(2)])
      show "owner s' (CycleTick (Rock A)) = Some (length (timers s))" by (simp add: f(6))
      show "owner s' c = owner s c" if "owner s c \<noteq> None" for c
        using that f(3,5) ct by (cases c) simp_all
    qed
    moreover have "started_not_stopped (calls s') [] = [a]"
      using o CycleGestures by (simp add: f(7) started_not_stopped_snoc)
    ultimately show ?thesis
      using r f(1,3,4,5) wt CycleGestures by simp
  qed
qed

lemma current_consistent_cong:
  assumes "idleCurrent s' = idleCurrent s" and "FingerWave_timer s' = FingerWave_timer s"
    and "CycleGestures_timer s' = CycleGestures_timer s" and "calls s' = calls s"
  shows "current_consistent s' = current_consistent s"
  by (simp add: current_consistent_def valid_current_def current_animation_def assms)

lemma scheduler_inv_send:
  assumes "scheduler_inv s"
  shows "\<exists>s'. send c s = Returned s' \<and> scheduler_inv s' \<and>
           written s' = written s @ [[toInt8 c]] \<and>
           idleTimer s' = idleTimer s \<and> idleCurrent s' = idleCurrent s \<and>
           timers s' = timers s \<and> FingerWave_timer s' = FingerWave_timer s \<and>
           CycleGestures_timer s' = CycleGestures_timer s \<and> calls s' = calls s"
proof -
  from assms obtain ws where ws: "serial s = Some ws" and own: "timers_owned s"
    and cur: "current_consistent s"
    by (auto simp add: scheduler_inv_def)
  from send_inv_fields [OF ws, of c]
  obtain s' where r: "send c s = Returned s'"
    and f: "serial s' = Some (ws @ [[toInt8 c]])"
      "idleTimer s' = idleTimer s" "idleCurrent s' = idleCurrent s"
      "FingerWave_timer s' = FingerWave_timer s"
      "CycleGestures_timer s' = CycleGestures_timer s"
      "timers s' = timers s" "calls s' = calls s"
    by blast
  have "timers_owned s'"
    using own r by (rule timers_owned_send)
  moreover have "current_consistent s'"
    using cur current_consistent_cong [OF f(3) f(4) f(5) f(7)] by simp
  ultimately have "scheduler_inv s'"
    by (simp add: scheduler_inv_def f(1))
  then show ?thesis
    using r f(2-7) by (simp add: written_def f(1) ws)
qed

lemma scheduler_inv_idle:
  assumes "scheduler_inv s"
  shows "\<exists>s'. idle A s = Returned s' \<and> scheduler_inv s'"
proof -
  from scheduler_inv_send [OF assms, of "Paper A"]
  obtain s1 where r1: "send (Paper A) s = Returned s1" and i1: "scheduler_inv s1"
    by blast
  show ?thesis
  proof (cases "idleTimer s1")
    case (Some h)
    with r1 i1 show ?thesis by (simp add: idle_def)
  next
    case None
    let ?s' = "s1\<lparr>timers := timers s1 @ [Some RotationTick],
                  idleTimer := Some (length (timers s1))\<rparr>"
    from None r1 have r: "idle A s = Returned ?s'"
      by (simp add: idle_def setInterval_def)
    from i1 have own: "timers_owned s1" and cur: "current_consistent s1"
      and ser: "serial s1 \<noteq> None"
      by (simp_all add: scheduler_inv_def)
    have "timers_owned ?s'"
    proof (rule timers_owned_new [OF own])
      show "timers ?s' = timers s1 @ [Some RotationTick]" by simp
      show "owner ?s' RotationTick = Some (length (timers s1))" by simp
      show "owner ?s' c = owner s1 c" if "owner s1 c \<noteq> None" for c
        using that None by (cases c) simp_all
    qed
    moreover have "current_consistent ?s'"
      using cur current_consistent_cong [of ?s' s1] by simp
    ultimately have "scheduler_inv ?s'"
      using ser by (simp add: scheduler_inv_def)
    with r show ?thesis by blast
  qed
qed


lemma nothing_running_clear_idle:
  assumes "nothing_running s" and "idleTimer s = Some h"
  shows "nothing_running ((clearInterval h s)\<lparr>idleTimer := None\<rparr>)"
proof -
  let ?s' = "(clearInterval h s)\<lparr>idleTimer := None\<rparr>"
  from assms(1) have own: "timers_owned s" by (simp add: nothing_running_def)
  have "timers_owned ?s'"
  proof (rule timers_owned_clear [OF own])
    show "timers ?s' = (timers s)[h := None]" by (simp add: clearInterval_def)
    show "owner ?s' c = owner s c" if "owner s c \<noteq> Some h" for c
      using that assms(2) by (cases c) (simp_all add: clearInterval_def)
  qed
  with assms(1) show ?thesis
    by (simp add: nothing_running_def clearInterval_def)
qed

lemma nothing_running_no_timer:
  assumes "nothing_running s" and "idleTimer s = None"
  shows "timer_at h s = None"
proof (rule ccontr)
  assume "timer_at h s \<noteq> None"
  then obtain c where h: "h < length (timers s)" and c: "timers s ! h = Some c"
    by (auto simp add: timer_at_def split: if_splits)
  from assms(1) have "timers_owned s" by (simp add: nothing_running_def)
  from timers_ownedD [OF this h c] have "owner s c = Some h" .
  moreover from assms have "owner s c = None"
    by (cases c) (simp_all add: nothing_running_def)
  ultimately show False by simp
qed

lemma nothing_running_inv:
  "nothing_running s \<Longrightarrow> idleCurrent s = None \<Longrightarrow> scheduler_inv s"
  by (simp add: nothing_running_def scheduler_inv_def current_consistent_def valid_current_def)

lemma scheduler_inv_stop:
  assumes "scheduler_inv s"
  shows "\<exists>s'. stopIdleAnimations A s = Returned s' \<and> nothing_running s' \<and>
           idleCurrent s' = None \<and> idleTimer s' = None \<and>
           written s' =
             written s @
             (if current_animation s = Some FingerWave then [[toInt8 (Paper A)]] else [])"
proof -
  from assms have ser: "serial s \<noteq> None" and own: "timers_owned s"
    and cur: "current_consistent s"
    by (simp_all add: scheduler_inv_def)
  have "\<exists>s1. nothing_running s1 \<and> idleCurrent s1 = None \<and>
          written s1 =
            written s @
            (if current_animation s = Some FingerWave then [[toInt8 (Paper A)]] else []) \<and>
          stopIdleAnimations A s =
            (case idleTimer s1 of
               Some h \<Rightarrow> Returned ((clearInterval h s1)\<lparr>idleTimer := None\<rparr>)
             | None \<Rightarrow> Returned s1)"
  proof (cases "idleCurrent s")
    case None
    with cur have "nothing_running s"
      using ser own
      by (auto simp add: nothing_running_def current_consistent_def current_animation_def)
    then show ?thesis
      using None by (intro exI [of _ s]) (simp add: stopIdleAnimations_def current_animation_def)
  next
    case (Some i)
    with cur obtain a where a: "animation_at i = Some a"
      using animation_at_Some [of i] by (auto simp add: current_consistent_def valid_current_def)
    from cleanup_current [OF assms Some a, of A]
    obtain s0 where s0: "animation_cleanup A a s = Returned s0" "nothing_running s0"
        "idleTimer s0 = idleTimer s"
        "written s0 = written s @ (if a = FingerWave then [[toInt8 (Paper A)]] else [])"
      by blast
    show ?thesis
      using Some a s0
      by (intro exI [of _ "s0\<lparr>idleCurrent := None\<rparr>"])
         (simp add: stopIdleAnimations_def current_animation_def written_def)
  qed
  then obtain s1 where s1: "nothing_running s1" "idleCurrent s1 = None"
      "written s1 =
         written s @
         (if current_animation s = Some FingerWave then [[toInt8 (Paper A)]] else [])"
      "stopIdleAnimations A s =
         (case idleTimer s1 of
            Some h \<Rightarrow> Returned ((clearInterval h s1)\<lparr>idleTimer := None\<rparr>)
          | None \<Rightarrow> Returned s1)"
    by blast
  show ?thesis
  proof (cases "idleTimer s1")
    case None
    with s1 show ?thesis by simp
  next
    case (Some h)
    from nothing_running_clear_idle [OF s1(1) Some] s1(2,3,4) Some
    show ?thesis by (simp add: clearInterval_def written_def)
  qed
qed

lemma scheduler_inv_rotation_tick:
  assumes "scheduler_inv s"
  shows "\<exists>s'. rotation_tick A s = Returned s' \<and> scheduler_inv s'"
proof -
  from assms have ser: "serial s \<noteq> None" and own: "timers_owned s"
    and cur: "current_consistent s"
    by (simp_all add: scheduler_inv_def)
  have "\<exists>s2 a. nothing_running s2 \<and> current_animation s2 = Some a \<and> valid_current s2 \<and>
          rotation_tick A s = animation_do A a s2"
  proof (cases "idleCurrent s")
    case None
    with cur have "nothing_running s"
      using ser own
      by (auto simp add: nothing_running_def current_consistent_def current_animation_def)
    then show ?thesis
      using None animation_at_first
      by (intro exI [of _ "s\<lparr>idleCurrent := Some 0\<rparr>"] exI [of _ FingerWave])
         (simp add: rotation_tick_def current_animation_def valid_current_def Let_def
            idleAnimations_def js_rem_def)
  next
    case (Some i)
    with cur obtain a where a: "animation_at i = Some a"
      using animation_at_Some [of i] by (auto simp add: current_consistent_def valid_current_def)
    from animation_at_next [OF a]
    obtain a' where a': "animation_at (js_rem (i + 1) (int (length idleAnimations))) = Some a'"
      by blast
    then have v: "0 \<le> js_rem (i + 1) (int (length idleAnimations)) \<and>
        js_rem (i + 1) (int (length idleAnimations)) < int (length idleAnimations)"
      by (simp add: animation_at_def split: if_splits)
    from cleanup_current [OF assms Some a, of A]
    obtain s0 where s0: "animation_cleanup A a s = Returned s0" "nothing_running s0"
        "idleCurrent s0 = idleCurrent s"
      by blast
    show ?thesis
      using Some a a' s0 v
      by (intro exI [of _ "s0\<lparr>idleCurrent :=
              Some (js_rem (i + 1) (int (length idleAnimations)))\<rparr>"] exI [of _ a'])
         (simp add: rotation_tick_def current_animation_def valid_current_def Let_def)
  qed
  then obtain s2 a where s2: "nothing_running s2" "current_animation s2 = Some a"
      "valid_current s2" "rotation_tick A s = animation_do A a s2"
    by blast
  from do_next [OF s2(1), of A a]
  obtain s' where s': "animation_do A a s2 = Returned s'" "serial s' \<noteq> None" "timers_owned s'"
      "idleCurrent s' = idleCurrent s2"
      "FingerWave_timer s' = None \<or> a = FingerWave"
      "CycleGestures_timer s' = None \<or> a = CycleGestures"
      "started_not_stopped (calls s') [] = [a]"
    by blast
  have ca: "current_animation s' = Some a"
    using s2(2) s'(4) by (simp add: current_animation_def)
  have "valid_current s'"
    using s2(3) s'(4) by (simp add: valid_current_def)
  with ca s'(5,6,7) have "current_consistent s'"
    by (auto simp add: current_consistent_def)
  with s'(2,3) have "scheduler_inv s'"
    by (simp add: scheduler_inv_def)
  with s2(4) s'(1) show ?thesis by simp
qed

lemma scheduler_inv_update_slot:
  assumes "scheduler_inv s" and "h < length (timers s)" and "timers s ! h = Some c0"
    and "owner s c = owner s c0"
  shows "scheduler_inv (s\<lparr>timers := (timers s)[h := Some c]\<rparr>)"
proof -
  let ?s' = "s\<lparr>timers := (timers s)[h := Some c]\<rparr>"
  from assms(1) have ser: "serial s \<noteq> None" and own: "timers_owned s"
    and cur: "current_consistent s"
    by (simp_all add: scheduler_inv_def)
  have o: "owner ?s' c' = owner s c'" for c'
    by (rule owner_cong) simp_all
  have "timers_owned ?s'"
    using own _ assms(2,3)
  proof (rule timers_owned_update)
    show "timers ?s' = (timers s)[h := Some c]" by simp
    show "owner ?s' c = owner s c0" using o [of c] assms(4) by simp
    show "owner ?s' c' = owner s c'" for c' by (rule o)
  qed
  moreover have "current_consistent ?s'"
    using cur current_consistent_cong [of ?s' s] by simp
  ultimately show ?thesis
    using ser by (simp add: scheduler_inv_def)
qed


lemma scheduler_inv_cycle_tick:
  assumes "scheduler_inv s" and "h < length (timers s)"
    and "timers s ! h = Some (CycleTick action)"
  shows "\<exists>s'. CycleGesturesAnimation_tick A h action s = Returned s' \<and> scheduler_inv s'"
proof -
  let ?s0 = "s\<lparr>timers := (timers s)[h := Some (CycleTick (action + 1))]\<rparr>"
  have i0: "scheduler_inv ?s0"
    using assms by (rule scheduler_inv_update_slot) simp
  from scheduler_inv_send [OF i0, of "action + 1"]
  obtain s1 where s1: "send (action + 1) ?s0 = Returned s1" "scheduler_inv s1"
      "CycleGestures_timer s1 = CycleGestures_timer s"
    by auto
  show ?thesis
  proof (cases "Scissors A \<le> action + 1")
    case False
    with s1 show ?thesis
      by (simp add: CycleGesturesAnimation_tick_def Let_def)
  next
    case True
    from s1(2) have ser: "serial s1 \<noteq> None" and own: "timers_owned s1"
      and cur: "current_consistent s1"
      by (simp_all add: scheduler_inv_def)
    from CycleGestures_cleanup_fields [of s1]
    obtain s2 where r: "CycleGesturesAnimation_cleanup s1 = Returned s2"
      and f: "serial s2 = serial s1"
        "timers s2 = (case CycleGestures_timer s1 of None \<Rightarrow> timers s1
                     | Some h \<Rightarrow> (timers s1)[h := None])"
        "idleTimer s2 = idleTimer s1" "idleCurrent s2 = idleCurrent s1"
        "FingerWave_timer s2 = FingerWave_timer s1"
        "CycleGestures_timer s2 = None"
        "calls s2 = calls s1 @ [CallCleanup CycleGestures]"
      by blast
    have "timers_owned s2"
    proof (rule timers_owned_cleared [OF own f(2)])
      show "owner s2 c = owner s1 c" if "owner s1 c \<noteq> CycleGestures_timer s1" for c
        using that f(3,5,6) by (cases c) simp_all
    qed
    moreover have "current_consistent s2"
    proof -
      from timers_ownedD [OF _ assms(2,3)] assms(1)
      have "CycleGestures_timer s = Some h" by (simp add: scheduler_inv_def)
      with s1(3) cur have ca: "current_animation s1 = Some CycleGestures"
        by (auto simp add: current_consistent_def)
      with cur have "started_not_stopped (calls s1) [] = [] \<or>
          started_not_stopped (calls s1) [] = [CycleGestures]"
        by (auto simp add: current_consistent_def)
      then have "started_not_stopped (calls s2) [] = []"
        by (auto simp add: f(7) started_not_stopped_snoc)
      moreover have "valid_current s2" "current_animation s2 = current_animation s1"
        using cur f(4) by (simp_all add: current_consistent_def valid_current_def
            current_animation_def)
      ultimately show ?thesis
        using cur f(5,6) by (simp add: current_consistent_def)
    qed
    ultimately have "scheduler_inv s2"
      using ser f(1) by (simp add: scheduler_inv_def)
    with True s1(1) r show ?thesis
      by (simp add: CycleGesturesAnimation_tick_def Let_def)
  qed
qed

lemma scheduler_inv_wave_tick:
  assumes "scheduler_inv s" and "h < length (timers s)"
    and "timers s ! h = Some (WaveTick finger)"
  shows "\<exists>s'. FingerWaveAnimation_tick h finger s = Returned s' \<and> scheduler_inv s'"
proof -
  from scheduler_inv_send [OF assms(1), of "(if finger \<le> 0 then 4 else finger - 1) * 2 + 6"]
  obtain s1 where s1: "send ((if finger \<le> 0 then 4 else finger - 1) * 2 + 6) s = Returned s1"
      "scheduler_inv s1" "timers s1 = timers s"
    by blast
  let ?f = "js_rem (finger + 1) 5"
  let ?s2 = "s1\<lparr>timers := (timers s1)[h := Some (WaveTick ?f)]\<rparr>"
  have "scheduler_inv ?s2"
    using s1(2) assms(2,3) by (intro scheduler_inv_update_slot [where ?c0.0 = "WaveTick finger"])
      (simp_all add: s1(3))
  from scheduler_inv_send [OF this, of "?f * 2 + 5"]
  obtain s3 where "send (?f * 2 + 5) ?s2 = Returned s3" "scheduler_inv s3"
    by blast
  with s1(1) show ?thesis
    by (simp add: FingerWaveAnimation_tick_def Let_def)
qed

lemma scheduler_inv_fire:
  assumes "scheduler_inv s"
  shows "\<exists>s'. fire A h s = Returned s' \<and> scheduler_inv s'"
proof (cases "timer_at h s")
  case None
  with assms show ?thesis by (simp add: fire_def)
next
  case (Some c)
  then have h: "h < length (timers s)" and c: "timers s ! h = Some c"
    by (simp_all add: timer_at_def split: if_splits)
  show ?thesis
  proof (cases c)
    case RotationTick
    with Some scheduler_inv_rotation_tick [OF assms, of A] show ?thesis
      by (simp add: fire_def)
  next
    case (CycleTick action)
    with Some scheduler_inv_cycle_tick [OF assms h, of action A] c show ?thesis
      by (simp add: fire_def)
  next
    case (WaveTick finger)
    with Some scheduler_inv_wave_tick [OF assms h, of finger] c show ?thesis
      by (simp add: fire_def)
  qed
qed

lemma scheduler_inv_gameStart:
  assumes "scheduler_inv s"
  shows "\<exists>s1 s'. stopIdleAnimations A s = Returned s1 \<and> send (Rock A) s1 = Returned s' \<and>
           gameStart A s = Returned s' \<and> scheduler_inv s' \<and> nothing_running s' \<and>
           idleCurrent s' = None \<and> idleTimer s' = None \<and>
           written s' = written s1 @ [[toInt8 (Rock A)]]"
proof -
  from scheduler_inv_stop [OF assms, of A]
  obtain s1 where s1: "stopIdleAnimations A s = Returned s1" "nothing_running s1"
      "idleCurrent s1 = None" "idleTimer s1 = None"
    by blast
  from nothing_running_inv [OF s1(2,3)] have "scheduler_inv s1" .
  from scheduler_inv_send [OF this, of "Rock A"]
  obtain s' where s': "send (Rock A) s1 = Returned s'" "scheduler_inv s'"
      "written s' = written s1 @ [[toInt8 (Rock A)]]"
      "idleTimer s' = idleTimer s1" "idleCurrent s' = idleCurrent s1"
      "timers s' = timers s1" "FingerWave_timer s' = FingerWave_timer s1"
      "CycleGestures_timer s' = CycleGestures_timer s1" "calls s' = calls s1"
    by blast
  have "nothing_running s'"
    using s1(2) s'(2,7,8,9) by (simp add: nothing_running_def scheduler_inv_def)
  with s1 s' show ?thesis
    by (simp add: gameStart_def)
qed

lemma scheduler_inv_step:
  assumes "scheduler_inv s"
  shows "\<exists>s'. step A e s = Returned s' \<and> scheduler_inv s'"
proof (cases e)
  case Idle
  with scheduler_inv_idle [OF assms, of A] show ?thesis by simp
next
  case GameStart
  with scheduler_inv_gameStart [OF assms, of A] show ?thesis by auto
next
  case StopIdle
  from scheduler_inv_stop [OF assms, of A]
  obtain s' where "stopIdleAnimations A s = Returned s'" "nothing_running s'"
      "idleCurrent s' = None"
    by blast
  with StopIdle nothing_running_inv [of s'] show ?thesis by simp
next
  case (Tick h)
  with scheduler_inv_fire [OF assms, of A h] show ?thesis by simp
qed

lemma scheduler_inv_run:
  "scheduler_inv s \<Longrightarrow> scheduler_inv (run A es s)"
proof (induction es arbitrary: s)
  case Nil
  then show ?case by simp
next
  case (Cons e es)
  from scheduler_inv_step [OF Cons.prems, of A e]
  obtain s' where "step A e s = Returned s'" "scheduler_inv s'" by blast
  with Cons.IH [of s'] show ?case by simp
qed

lemma connected_at_rest_inv: "connected_at_rest s \<Longrightarrow> scheduler_inv s"
  by (simp add: connected_at_rest_def scheduler_inv_def timers_owned_def
      current_consistent_def valid_current_def)

lemma scheduler_inv_started:
  assumes "scheduler_inv s"
  shows "length (started_not_stopped (calls s) []) \<le> 1"
proof -
  from assms have "started_not_stopped (calls s) [] = [] \<or>
      map Some (started_not_stopped (calls s) []) = [current_animation s]"
    by (simp add: scheduler_inv_def current_consistent_def)
  then show ?thesis
  proof
    assume "started_not_stopped (calls s) [] = []"
    then show ?thesis by simp
  next
    assume "map Some (started_not_stopped (calls s) []) = [current_animation s]"
    then have "length (map Some (started_not_stopped (calls s) [])) = 1" by simp
    then show ?thesis by simp
  qed
qed

lemma scheduler_inv_animation_timers:
  assumes "scheduler_inv s"
  shows "length (animation_timers s) \<le> 1"
proof -
  from assms have own: "timers_owned s" and cur: "current_consistent s"
    by (simp_all add: scheduler_inv_def)
  define t where "t = (case FingerWave_timer s of Some h \<Rightarrow> Some h
                       | None \<Rightarrow> CycleGestures_timer s)"
  have "Some h = t" if "h \<in> set (animation_timers s)" for h
  proof -
    from that obtain c where h: "h < length (timers s)" and c: "timers s ! h = Some c"
      and n: "c \<noteq> RotationTick"
      by (auto simp add: animation_timers_def)
    from timers_ownedD [OF own h c] have o: "owner s c = Some h" .
    show ?thesis
    proof (cases c)
      case RotationTick
      with n show ?thesis by simp
    next
      case (CycleTick a)
      with o have ct: "CycleGestures_timer s = Some h" by simp
      with cur have "FingerWave_timer s = None"
        by (auto simp add: current_consistent_def)
      with ct show ?thesis by (simp add: t_def)
    next
      case (WaveTick f)
      with o show ?thesis by (simp add: t_def)
    qed
  qed
  then have sub: "set (animation_timers s) \<subseteq> {h. Some h = t}" by blast
  have "{h. Some h = t} \<subseteq> (case t of None \<Rightarrow> {} | Some h \<Rightarrow> {h})"
    by (auto split: option.splits)
  with sub have sub': "set (animation_timers s) \<subseteq> (case t of None \<Rightarrow> {} | Some h \<Rightarrow> {h})"
    by (rule subset_trans)
  have fin: "finite (case t of None \<Rightarrow> {} | Some h \<Rightarrow> {h})"
    by (simp split: option.splits)
  have "distinct (animation_timers s)"
    by (simp add: animation_timers_def)
  then have "length (animation_timers s) = card (set (animation_timers s))"
    by (simp add: distinct_card)
  also have "\<dots> \<le> card (case t of None \<Rightarrow> {} | Some h \<Rightarrow> {h})"
    using sub' fin by (rule card_mono [rotated])
  also have "\<dots> \<le> 1"
    by (simp split: option.splits)
  finally show ?thesis .
qed

lemma run_waving: "run RPSAction_012 [Idle, Tick 0] connected = waving"
  by (simp add: waving_def idling_def)

lemma run_append: "run A (es @ es') s = run A es' (run A es s)"
  by (induction es arbitrary: s) simp_all

lemma quiet_step:
  assumes "quiet s" and "e \<noteq> Idle"
  shows "\<exists>s'. step A e s = Returned s' \<and> quiet s' \<and>
           written s' = written s @ (if e = GameStart then [[toInt8 (Rock A)]] else [])"
proof -
  from assms(1) obtain ws where ws: "serial s = Some ws" and it: "idleTimer s = None"
    and ic: "idleCurrent s = None" and t: "\<And>h. timer_at h s = None"
    by (auto simp add: quiet_def)
  show ?thesis
  proof (cases e)
    case Idle
    with assms(2) show ?thesis by simp
  next
    case GameStart
    from send_inv_fields [OF ws, of "Rock A"]
    obtain s' where s': "send (Rock A) s = Returned s'"
        "serial s' = Some (ws @ [[toInt8 (Rock A)]])"
        "idleTimer s' = idleTimer s" "idleCurrent s' = idleCurrent s" "timers s' = timers s"
      by blast
    have "timer_at h s' = timer_at h s" for h
      by (simp add: timer_at_def s'(5))
    with t have "timer_at h s' = None" for h
      by simp
    then have "quiet s'"
      using s'(2,3,4) it ic by (simp add: quiet_def)
    then show ?thesis
      using GameStart s' ws stopIdleAnimations_at_rest [OF ic it, of A]
      by (simp add: gameStart_def written_def)
  next
    case StopIdle
    with assms(1) stopIdleAnimations_at_rest [OF ic it, of A] show ?thesis by simp
  next
    case (Tick h)
    with assms(1) t [of h] show ?thesis by (simp add: fire_def)
  qed
qed

lemma quiet_run:
  assumes "quiet s" and "Idle \<notin> set es"
  shows "quiet (run A es s) \<and>
         written (run A es s) =
           written s @ replicate (count_list es GameStart) [toInt8 (Rock A)]"
  using assms
proof (induction es arbitrary: s)
  case Nil
  then show ?case by simp
next
  case (Cons e es)
  then have e: "e \<noteq> Idle" and es: "Idle \<notin> set es" by auto
  from quiet_step [OF Cons.prems(1) e, of A]
  obtain s' where s': "step A e s = Returned s'" "quiet s'"
      "written s' = written s @ (if e = GameStart then [[toInt8 (Rock A)]] else [])"
    by blast
  from Cons.IH [OF s'(2) es] s'(1,3) show ?case
    by (simp add: replicate_app_Cons_same)
qed

subsection \<open>The call trace, one call at a time\<close>

lemma never_two_started_snoc:
  "never_two_started (cs @ [c]) acc \<longleftrightarrow>
     never_two_started cs acc \<and> length (started_not_stopped (cs @ [c]) acc) \<le> 1"
proof (induction cs acc rule: started_not_stopped.induct)
  case (1 acc)
  show ?case by (cases c) (auto simp add: length_remove1)
next
  case (2 a cs acc)
  then show ?case by auto
next
  case (3 a cs acc)
  then show ?case by auto
qed

lemma never_two_started_now:
  "never_two_started cs acc \<Longrightarrow> length (started_not_stopped cs acc) \<le> 1"
  by (induction cs acc rule: started_not_stopped.induct) simp_all

lemma never_two_started_extend:
  assumes "never_two_started cs []"
    and "length (started_not_stopped (cs @ extra) []) \<le> 1"
    and "extra = [] \<or> (\<exists>c. extra = [c]) \<or> (\<exists>a c. extra = [CallCleanup a, c])"
  shows "never_two_started (cs @ extra) []"
proof -
  from assms(3) consider "extra = []" | c where "extra = [c]"
    | a c where "extra = [CallCleanup a, c]"
    by blast
  then show ?thesis
  proof cases
    case 1
    with assms(1) show ?thesis by simp
  next
    case 2
    with assms(1,2) show ?thesis by (simp add: never_two_started_snoc)
  next
    case 3
    have s: "length (started_not_stopped cs []) \<le> 1"
      using assms(1) by (rule never_two_started_now)
    have "length (remove1 a (started_not_stopped cs [])) \<le> length (started_not_stopped cs [])"
      by (simp add: length_remove1)
    with s have "length (started_not_stopped (cs @ [CallCleanup a]) []) \<le> 1"
      by (simp add: started_not_stopped_snoc)
    with assms(1) have m: "never_two_started (cs @ [CallCleanup a]) []"
      by (simp add: never_two_started_snoc)
    have e: "cs @ extra = (cs @ [CallCleanup a]) @ [c]"
      using 3 by simp
    from assms(2) have "length (started_not_stopped ((cs @ [CallCleanup a]) @ [c]) []) \<le> 1"
      unfolding e .
    with m have "never_two_started ((cs @ [CallCleanup a]) @ [c]) []"
      by (simp only: never_two_started_snoc simp_thms)
    then show ?thesis unfolding e .
  qed
qed

lemma and_then_Returned:
  "and_then r f = Returned s' \<longleftrightarrow> (\<exists>s1. r = Returned s1 \<and> f s1 = Returned s')"
  by (cases r) simp_all

lemma send_calls: "send c s = Returned s' \<Longrightarrow> calls s' = calls s"
  by (cases "serial s") (auto simp add: send_def)

lemma FingerWave_cleanup_calls:
  assumes "FingerWaveAnimation_cleanup A s = Returned s'"
  shows "calls s' = calls s @ [CallCleanup FingerWave]"
proof -
  from assms obtain s1 where s1: "send (Paper A) (called (CallCleanup FingerWave) s) = Returned s1"
    and r: "(case FingerWave_timer s1 of
               Some h \<Rightarrow> Returned ((clearInterval h s1)\<lparr>FingerWave_timer := None\<rparr>)
             | None \<Rightarrow> Returned s1) = Returned s'"
    unfolding FingerWaveAnimation_cleanup_def and_then_Returned by blast
  from send_calls [OF s1] have "calls s1 = calls s @ [CallCleanup FingerWave]"
    by (simp add: called_def)
  moreover from r have "calls s' = calls s1"
    by (cases "FingerWave_timer s1") (auto simp add: clearInterval_def)
  ultimately show ?thesis by simp
qed

lemma CycleGestures_cleanup_calls:
  assumes "CycleGesturesAnimation_cleanup s = Returned s'"
  shows "calls s' = calls s @ [CallCleanup CycleGestures]"
  using assms
  by (cases "CycleGestures_timer s")
     (auto simp add: CycleGesturesAnimation_cleanup_def called_def clearInterval_def)

lemma animation_cleanup_calls:
  "animation_cleanup A a s = Returned s' \<Longrightarrow> calls s' = calls s @ [CallCleanup a]"
proof (cases a)
  case FingerWave
  assume "animation_cleanup A a s = Returned s'"
  with FingerWave show ?thesis by (simp add: FingerWave_cleanup_calls)
next
  case TurnWristAnim
  assume "animation_cleanup A a s = Returned s'"
  with TurnWristAnim show ?thesis
    by (auto simp add: TurnWristAnimation_cleanup_def called_def)
next
  case CycleGestures
  assume "animation_cleanup A a s = Returned s'"
  with CycleGestures show ?thesis by (simp add: CycleGestures_cleanup_calls)
qed

lemma animation_do_calls:
  assumes "animation_do A a s = Returned s'"
  shows "calls s' = calls s @ [CallDo a]"
proof (cases a)
  case FingerWave
  with assms obtain s1 where s1: "send (Rock A) (called (CallDo FingerWave) s) = Returned s1"
    and r: "Returned ((snd (setInterval (WaveTick 4) s1))
              \<lparr>FingerWave_timer := Some (fst (setInterval (WaveTick 4) s1))\<rparr>) = Returned s'"
    by (auto simp add: FingerWaveAnimation_do_def and_then_Returned Let_def split_beta)
  from send_calls [OF s1] have "calls s1 = calls s @ [CallDo FingerWave]"
    by (simp add: called_def)
  moreover from r have "calls s' = calls s1"
    by (auto simp add: setInterval_def)
  ultimately show ?thesis using FingerWave by simp
next
  case TurnWristAnim
  with assms have "send (ArduinoCommand_value TurnWrist) (called (CallDo TurnWristAnim) s) =
      Returned s'"
    by (simp add: TurnWristAnimation_do_def)
  from send_calls [OF this] TurnWristAnim show ?thesis by (simp add: called_def)
next
  case CycleGestures
  with assms obtain s1 where s1: "send (Rock A) (called (CallDo CycleGestures) s) = Returned s1"
    and r: "Returned ((snd (setInterval (CycleTick (Rock A)) s1))
              \<lparr>CycleGestures_timer := Some (fst (setInterval (CycleTick (Rock A)) s1))\<rparr>) =
            Returned s'"
    by (auto simp add: CycleGesturesAnimation_do_def and_then_Returned Let_def split_beta)
  from send_calls [OF s1] have "calls s1 = calls s @ [CallDo CycleGestures]"
    by (simp add: called_def)
  moreover from r have "calls s' = calls s1"
    by (auto simp add: setInterval_def)
  ultimately show ?thesis using CycleGestures by simp
qed

lemma stopIdleAnimations_calls:
  assumes "stopIdleAnimations A s = Returned s'"
  shows "calls s' = calls s \<or> (\<exists>c. calls s' = calls s @ [c])"
proof -
  from assms obtain s1 where
    p1: "(case idleCurrent s of
            Some i \<Rightarrow>
              (case animation_at i of
                 None \<Rightarrow> Threw TypeError s
               | Some a \<Rightarrow>
                   and_then (animation_cleanup A a s) (\<lambda>s. Returned (s\<lparr>idleCurrent := None\<rparr>)))
          | None \<Rightarrow> Returned s) = Returned s1"
    and p2: "(case idleTimer s1 of
                Some h \<Rightarrow> Returned ((clearInterval h s1)\<lparr>idleTimer := None\<rparr>)
              | None \<Rightarrow> Returned s1) = Returned s'"
    unfolding stopIdleAnimations_def and_then_Returned by blast
  from p2 have c2: "calls s' = calls s1"
    by (cases "idleTimer s1") (auto simp add: clearInterval_def)
  have "calls s1 = calls s \<or> (\<exists>c. calls s1 = calls s @ [c])"
  proof (cases "idleCurrent s")
    case None
    with p1 show ?thesis by simp
  next
    case (Some i)
    show ?thesis
    proof (cases "animation_at i")
      case None
      with Some p1 show ?thesis by simp
    next
      case (Some a)
      with \<open>idleCurrent s = Some i\<close> p1
      obtain s0 where "animation_cleanup A a s = Returned s0" "s1 = s0\<lparr>idleCurrent := None\<rparr>"
        by (auto simp add: and_then_Returned)
      with animation_cleanup_calls [of A a s s0] show ?thesis by simp
    qed
  qed
  with c2 show ?thesis by simp
qed

lemma idle_calls:
  assumes "idle A s = Returned s'"
  shows "calls s' = calls s"
proof -
  from assms obtain s1 where s1: "send (Paper A) s = Returned s1"
    and r: "(case idleTimer s1 of
               None \<Rightarrow>
                 (let (h, s') = setInterval RotationTick s1
                  in Returned (s'\<lparr>idleTimer := Some h\<rparr>))
             | Some h \<Rightarrow> Returned s1) = Returned s'"
    unfolding idle_def and_then_Returned by blast
  from r have "calls s' = calls s1"
    by (cases "idleTimer s1") (auto simp add: setInterval_def)
  with send_calls [OF s1] show ?thesis by simp
qed

lemma gameStart_calls:
  assumes "gameStart A s = Returned s'"
  shows "calls s' = calls s \<or> (\<exists>c. calls s' = calls s @ [c])"
proof -
  from assms obtain s1 where "stopIdleAnimations A s = Returned s1" "send (Rock A) s1 = Returned s'"
    unfolding gameStart_def and_then_Returned by blast
  with stopIdleAnimations_calls [of A s s1] send_calls [of "Rock A" s1 s'] show ?thesis
    by simp
qed

lemma rotation_tick_calls:
  assumes "rotation_tick A s = Returned s'"
  shows "(\<exists>c. calls s' = calls s @ [c]) \<or> (\<exists>a c. calls s' = calls s @ [CallCleanup a, c])"
proof -
  from assms obtain s1 where
    p1: "(case idleCurrent s of
            Some i \<Rightarrow>
              (case animation_at i of
                 None \<Rightarrow> Threw TypeError s
               | Some a \<Rightarrow> animation_cleanup A a s)
          | None \<Rightarrow> Returned (s\<lparr>idleCurrent := Some (- 1)\<rparr>)) = Returned s1"
    and p2: "(let incremented = (case idleCurrent s1 of Some i \<Rightarrow> i + 1 | None \<Rightarrow> 1);
                 current = js_rem incremented (int (length idleAnimations));
                 s' = s1\<lparr>idleCurrent := Some current\<rparr> in
              case animation_at current of
                None \<Rightarrow> Threw TypeError s'
              | Some a \<Rightarrow> animation_do A a s') = Returned s'"
    unfolding rotation_tick_def and_then_Returned by blast
  have c1: "calls s1 = calls s \<or> (\<exists>a. calls s1 = calls s @ [CallCleanup a])"
  proof (cases "idleCurrent s")
    case None
    with p1 show ?thesis by auto
  next
    case (Some i)
    show ?thesis
    proof (cases "animation_at i")
      case None
      with Some p1 show ?thesis by simp
    next
      case (Some a)
      with \<open>idleCurrent s = Some i\<close> p1 animation_cleanup_calls [of A a s s1]
      show ?thesis by simp
    qed
  qed
  let ?current = "js_rem (case idleCurrent s1 of Some i \<Rightarrow> i + 1 | None \<Rightarrow> 1)
       (int (length idleAnimations))"
  from p2 have p2': "(case animation_at ?current of
                None \<Rightarrow> Threw TypeError (s1\<lparr>idleCurrent := Some ?current\<rparr>)
              | Some a \<Rightarrow> animation_do A a (s1\<lparr>idleCurrent := Some ?current\<rparr>)) = Returned s'"
    by (simp add: Let_def)
  have "\<exists>c. calls s' = calls s1 @ [c]"
  proof (cases "animation_at ?current")
    case None
    with p2' show ?thesis by simp
  next
    case (Some a)
    with p2' animation_do_calls [of A a "s1\<lparr>idleCurrent := Some ?current\<rparr>" s']
    show ?thesis by simp
  qed
  with c1 show ?thesis by auto
qed

lemma cycle_tick_calls:
  assumes "CycleGesturesAnimation_tick A h action s = Returned s'"
  shows "calls s' = calls s \<or> (\<exists>c. calls s' = calls s @ [c])"
proof -
  from assms obtain s1 where
    s1: "send (action + 1) (s\<lparr>timers := (timers s)[h := Some (CycleTick (action + 1))]\<rparr>) =
           Returned s1"
    and r: "(if Scissors A \<le> action + 1 then CycleGesturesAnimation_cleanup s1
             else Returned s1) = Returned s'"
    unfolding CycleGesturesAnimation_tick_def and_then_Returned Let_def by blast
  from send_calls [OF s1] have c1: "calls s1 = calls s" by simp
  show ?thesis
  proof (cases "Scissors A \<le> action + 1")
    case True
    with r CycleGestures_cleanup_calls [of s1 s'] c1 show ?thesis by simp
  next
    case False
    with r c1 show ?thesis by simp
  qed
qed

lemma wave_tick_calls:
  assumes "FingerWaveAnimation_tick h finger s = Returned s'"
  shows "calls s' = calls s"
proof -
  from assms obtain s1 where
    s1: "send ((if finger \<le> 0 then 4 else finger - 1) * 2 + 6) s = Returned s1"
    and r: "send (js_rem (finger + 1) 5 * 2 + 5)
              (s1\<lparr>timers := (timers s1)[h := Some (WaveTick (js_rem (finger + 1) 5))]\<rparr>) =
            Returned s'"
    unfolding FingerWaveAnimation_tick_def and_then_Returned Let_def by blast
  from send_calls [OF s1] send_calls [OF r] show ?thesis by simp
qed

lemma fire_calls:
  assumes "fire A h s = Returned s'"
  shows "calls s' = calls s \<or> (\<exists>c. calls s' = calls s @ [c]) \<or>
         (\<exists>a c. calls s' = calls s @ [CallCleanup a, c])"
proof (cases "timer_at h s")
  case None
  with assms show ?thesis by (simp add: fire_def)
next
  case (Some c)
  show ?thesis
  proof (cases c)
    case RotationTick
    with Some assms rotation_tick_calls [of A s s'] show ?thesis
      by (auto simp add: fire_def)
  next
    case (CycleTick action)
    with Some assms cycle_tick_calls [of A h action s s'] show ?thesis
      by (auto simp add: fire_def)
  next
    case (WaveTick finger)
    with Some assms wave_tick_calls [of h finger s s'] show ?thesis
      by (simp add: fire_def)
  qed
qed

lemma step_calls:
  assumes "step A e s = Returned s'"
  shows "\<exists>extra. calls s' = calls s @ extra \<and>
     (extra = [] \<or> (\<exists>c. extra = [c]) \<or> (\<exists>a c. extra = [CallCleanup a, c]))"
proof -
  have "calls s' = calls s \<or> (\<exists>c. calls s' = calls s @ [c]) \<or>
         (\<exists>a c. calls s' = calls s @ [CallCleanup a, c])"
  proof (cases e)
    case Idle
    with assms idle_calls [of A s s'] show ?thesis by simp
  next
    case GameStart
    with assms gameStart_calls [of A s s'] show ?thesis by auto
  next
    case StopIdle
    with assms stopIdleAnimations_calls [of A s s'] show ?thesis by auto
  next
    case (Tick h)
    with assms fire_calls [of A h s s'] show ?thesis by auto
  qed
  then consider "calls s' = calls s @ []" | c where "calls s' = calls s @ [c]"
    | a c where "calls s' = calls s @ [CallCleanup a, c]"
    by auto
  then show ?thesis
  proof cases
    case 1
    then show ?thesis by blast
  next
    case 2
    then show ?thesis by blast
  next
    case 3
    then show ?thesis by blast
  qed
qed

lemma never_two_started_step:
  assumes "scheduler_inv s" and "never_two_started (calls s) []"
  shows "never_two_started (calls (state_of (step A e s))) []"
proof -
  from scheduler_inv_step [OF assms(1), of A e]
  obtain s' where s': "step A e s = Returned s'" "scheduler_inv s'" by blast
  from step_calls [OF s'(1)]
  obtain extra where e: "calls s' = calls s @ extra"
      "extra = [] \<or> (\<exists>c. extra = [c]) \<or> (\<exists>a c. extra = [CallCleanup a, c])"
    by blast
  from scheduler_inv_started [OF s'(2)]
  have "length (started_not_stopped (calls s @ extra) []) \<le> 1" by (simp add: e(1))
  from never_two_started_extend [OF assms(2) this e(2)] show ?thesis
    by (simp add: s'(1) e(1))
qed

lemma never_two_started_run:
  "scheduler_inv s \<Longrightarrow> never_two_started (calls s) [] \<Longrightarrow>
   never_two_started (calls (run A es s)) []"
proof (induction es arbitrary: s)
  case Nil
  then show ?case by simp
next
  case (Cons e es)
  from scheduler_inv_step [OF Cons.prems(1), of A e]
  obtain s' where s': "step A e s = Returned s'" "scheduler_inv s'" by blast
  from never_two_started_step [OF Cons.prems, of A e] s'(1)
  have "never_two_started (calls s') []" by simp
  from Cons.IH [OF s'(2) this] s'(1) show ?case by simp
qed

lemma stopIdleAnimations_calls_exact:
  assumes "stopIdleAnimations A s = Returned s'"
  shows "calls s' =
           calls s @ (case current_animation s of None \<Rightarrow> [] | Some a \<Rightarrow> [CallCleanup a])"
proof -
  from assms obtain s1 where
    p1: "(case idleCurrent s of
            Some i \<Rightarrow>
              (case animation_at i of
                 None \<Rightarrow> Threw TypeError s
               | Some a \<Rightarrow>
                   and_then (animation_cleanup A a s) (\<lambda>s. Returned (s\<lparr>idleCurrent := None\<rparr>)))
          | None \<Rightarrow> Returned s) = Returned s1"
    and p2: "(case idleTimer s1 of
                Some h \<Rightarrow> Returned ((clearInterval h s1)\<lparr>idleTimer := None\<rparr>)
              | None \<Rightarrow> Returned s1) = Returned s'"
    unfolding stopIdleAnimations_def and_then_Returned by blast
  from p2 have c2: "calls s' = calls s1"
    by (cases "idleTimer s1") (auto simp add: clearInterval_def)
  have "calls s1 =
      calls s @ (case current_animation s of None \<Rightarrow> [] | Some a \<Rightarrow> [CallCleanup a])"
  proof (cases "idleCurrent s")
    case None
    with p1 show ?thesis by (simp add: current_animation_def)
  next
    case (Some i)
    show ?thesis
    proof (cases "animation_at i")
      case None
      with Some p1 show ?thesis by simp
    next
      case (Some a)
      with \<open>idleCurrent s = Some i\<close> p1
      obtain s0 where "animation_cleanup A a s = Returned s0" "s1 = s0\<lparr>idleCurrent := None\<rparr>"
        by (auto simp add: and_then_Returned)
      with animation_cleanup_calls [of A a s s0] Some \<open>idleCurrent s = Some i\<close>
      show ?thesis by (simp add: current_animation_def)
    qed
  qed
  with c2 show ?thesis by simp
qed

lemma no_timer_no_animation_timers:
  assumes "\<And>h. timer_at h s = None"
  shows "animation_timers s = []"
proof -
  have "timers s ! h = None" if "h < length (timers s)" for h
    using assms [of h] that by (simp add: timer_at_def)
  then show ?thesis
    by (simp add: animation_timers_def filter_empty_conv)
qed

lemma wristing_eq:
  "state_of (fire RPSAction_012 0 waving) =
     \<lparr>port = ''/dev/ttyACM0'', baudRate = 9600, serial = Some [[0], [1], [0], [1], [4]],
      console = [0, 1, 0, 1, 4],
      idleTimer = Some 0, idleCurrent = Some 1, FingerWave_timer = None,
      CycleGestures_timer = None, timers = [Some RotationTick, None],
      calls = [CallDo FingerWave, CallCleanup FingerWave, CallDo TurnWristAnim]\<rparr>"
  by (simp add: waving_eq fire_def timer_at_def rotation_tick_def js_rem_def
      animation_at_def idleAnimations_def FingerWaveAnimation_cleanup_def
      TurnWristAnimation_do_def called_def clearInterval_def
      send_def RPSAction_012_def toInt8_def)

lemma cycling_eq:
  "cycling =
     \<lparr>port = ''/dev/ttyACM0'', baudRate = 9600, serial = Some [[0], [1], [0], [1], [4], [0]],
      console = [0, 1, 0, 1, 4, 0],
      idleTimer = Some 0, idleCurrent = Some 2, FingerWave_timer = None,
      CycleGestures_timer = Some 2,
      timers = [Some RotationTick, None, Some (CycleTick 0)],
      calls = [CallDo FingerWave, CallCleanup FingerWave, CallDo TurnWristAnim,
               CallCleanup TurnWristAnim, CallDo CycleGestures]\<rparr>"
proof -
  have "cycling = state_of (fire RPSAction_012 0 (state_of (fire RPSAction_012 0 waving)))"
    by (simp add: cycling_def waving_def idling_def)
  then show ?thesis
    unfolding wristing_eq
    by (simp add: fire_def timer_at_def rotation_tick_def js_rem_def
      animation_at_def idleAnimations_def TurnWristAnimation_cleanup_def
      CycleGesturesAnimation_do_def called_def setInterval_def
      send_def RPSAction_012_def toInt8_def numeral_2_eq_2)
qed

section \<open>Runs of the scheduler\<close>

text \<open>
  Claim C1. Start from a connected object on which nothing was scheduled yet, and let any
  sequence of events happen: calls of \<open>idle\<close>, \<open>gameStart\<close> and \<open>stopIdleAnimations\<close>, and
  ticks of any interval (the rotation interval and the intervals of the animations). In
  the trace of the calls of \<open>do\<close> and \<open>cleanup\<close> made so far, at no point was more than
  one animation started and not yet stopped (every \<open>do\<close> comes after the \<open>cleanup\<close> of the
  animation started before it); in the state reached at most one animation is started
  and not yet stopped, at most one interval of an animation is scheduled, and the next
  event returns without error.
\<close>

theorem at_most_one_animation_running:
  assumes "connected_at_rest s0"
  shows "never_two_started (calls (run A es s0)) [] \<and>
         length (started_not_stopped (calls (run A es s0)) []) \<le> 1 \<and>
         length (animation_timers (run A es s0)) \<le> 1 \<and>
         returned (step A e (run A es s0))"
proof -
  from assms have i: "scheduler_inv s0" by (rule connected_at_rest_inv)
  from assms have "never_two_started (calls s0) []"
    by (simp add: connected_at_rest_def)
  with i have "never_two_started (calls (run A es s0)) []"
    by (rule never_two_started_run)
  moreover from i have "scheduler_inv (run A es s0)"
    by (rule scheduler_inv_run)
  ultimately show ?thesis
    using scheduler_inv_step [of "run A es s0" A e]
      scheduler_inv_started [of "run A es s0"]
      scheduler_inv_animation_timers [of "run A es s0"]
    by auto
qed

theorem at_most_one_animation_running_witness:
  "connected_at_rest connected \<and>
   never_two_started (calls (run RPSAction_012 [Idle, Tick 0] connected)) [] \<and>
   started_not_stopped (calls (run RPSAction_012 [Idle, Tick 0] connected)) [] = [FingerWave] \<and>
   length (started_not_stopped (calls (run RPSAction_012 [Idle, Tick 0] connected)) []) \<le> 1 \<and>
   length (animation_timers (run RPSAction_012 [Idle, Tick 0] connected)) \<le> 1 \<and>
   returned (step RPSAction_012 (Tick 0) (run RPSAction_012 [Idle, Tick 0] connected))"
proof -
  have c: "connected_at_rest connected"
    by (simp add: connected_at_rest_def connected_eq)
  have "started_not_stopped (calls (run RPSAction_012 [Idle, Tick 0] connected)) [] =
      [FingerWave]"
    unfolding run_waving by (simp add: waving_eq)
  with at_most_one_animation_running [OF c, of RPSAction_012 "[Idle, Tick 0]" "Tick 0"] c
  show ?thesis by simp
qed

text \<open>
  Claim C2. In any state such a run reaches, \<open>gameStart\<close> first runs
  \<open>stopIdleAnimations\<close>, which returns (having written the \<open>Paper\<close> byte of the finger
  wave's \<open>cleanup\<close> when the wave was current, and nothing otherwise), and then sends
  \<open>Rock\<close> on the state that call left: the bytes written by stopping come before the byte
  of the game start. After it no
  interval is scheduled, and whatever events follow, as long as \<open>idle\<close> is not called
  again, the only bytes written are the \<open>Rock\<close> bytes of further calls of \<open>gameStart\<close>: no
  byte of an idle animation follows a game start.
\<close>

theorem no_idle_command_after_gameStart:
  assumes "connected_at_rest s0" and "Idle \<notin> set es'"
  shows "returned (stopIdleAnimations A (run A es s0)) \<and>
         written (state_of (stopIdleAnimations A (run A es s0))) =
           written (run A es s0) @
           (if current_animation (run A es s0) = Some FingerWave then [[toInt8 (Paper A)]]
            else []) \<and>
         gameStart A (run A es s0) =
           send (Rock A) (state_of (stopIdleAnimations A (run A es s0))) \<and>
         returned (gameStart A (run A es s0)) \<and>
         written (state_of (gameStart A (run A es s0))) =
           written (state_of (stopIdleAnimations A (run A es s0))) @ [[toInt8 (Rock A)]] \<and>
         written (run A (es @ GameStart # es') s0) =
           written (state_of (gameStart A (run A es s0))) @
           replicate (count_list es' GameStart) [toInt8 (Rock A)] \<and>
         timer_at h (run A (es @ GameStart # es') s0) = None"
proof -
  let ?s = "run A es s0"
  from assms(1) have inv: "scheduler_inv ?s"
    by (intro scheduler_inv_run connected_at_rest_inv)
  from scheduler_inv_gameStart [OF inv, of A]
  obtain s1 s2 where g: "stopIdleAnimations A ?s = Returned s1" "send (Rock A) s1 = Returned s2"
      "gameStart A ?s = Returned s2" "scheduler_inv s2" "nothing_running s2"
      "idleCurrent s2 = None" "idleTimer s2 = None"
      "written s2 = written s1 @ [[toInt8 (Rock A)]]"
    by blast
  from scheduler_inv_stop [OF inv, of A] g(1)
  have st: "written s1 =
      written ?s @ (if current_animation ?s = Some FingerWave then [[toInt8 (Paper A)]] else [])"
    by auto
  have "quiet s2"
    using g(4,6,7) nothing_running_no_timer [OF g(5,7)]
    by (simp add: quiet_def scheduler_inv_def)
  from quiet_run [OF this assms(2), of A]
  have q: "quiet (run A es' s2)"
    "written (run A es' s2) = written s2 @ replicate (count_list es' GameStart) [toInt8 (Rock A)]"
    by simp_all
  have r: "run A (es @ GameStart # es') s0 = run A es' s2"
    by (simp add: run_append g(3))
  from q(1) have "timer_at h (run A es' s2) = None"
    by (simp add: quiet_def)
  with g q(2) r st show ?thesis by simp
qed

theorem no_idle_command_after_gameStart_witness:
  "connected_at_rest connected \<and>
   Idle \<notin> set [Tick 1, Tick 0, GameStart, StopIdle] \<and>
   written (run RPSAction_012 [Idle, Tick 0] connected) = [[0], [1], [0]] \<and>
   written (state_of (gameStart RPSAction_012 (run RPSAction_012 [Idle, Tick 0] connected))) =
     [[0], [1], [0], [1], [0]] \<and>
   written (run RPSAction_012 ([Idle, Tick 0] @ GameStart # [Tick 1, Tick 0, GameStart, StopIdle])
      connected) = [[0], [1], [0], [1], [0], [0]]"
proof -
  have c: "connected_at_rest connected"
    by (simp add: connected_at_rest_def connected_eq)
  have i: "Idle \<notin> set [Tick 1, Tick 0, GameStart, StopIdle]" by simp
  have s: "state_of (stopIdleAnimations RPSAction_012 waving) = stopped"
    by (simp add: stopped_def)
  have w: "written waving = [[0], [1], [0]]" "written stopped = [[0], [1], [0], [1]]"
    by (simp_all add: written_def waving_eq stopped_eq)
  have R: "toInt8 (Rock RPSAction_012) = 0" by (simp add: RPSAction_012_def toInt8_def)
  note T = no_idle_command_after_gameStart [OF c i, of RPSAction_012 "[Idle, Tick 0]" 0]
  have wv: "written (run RPSAction_012 [Idle, Tick 0] connected) = [[0], [1], [0]]"
    unfolding run_waving by (rule w(1))
  from T have "written (state_of (gameStart RPSAction_012
        (run RPSAction_012 [Idle, Tick 0] connected))) =
      written (state_of (stopIdleAnimations RPSAction_012
        (run RPSAction_012 [Idle, Tick 0] connected))) @ [[toInt8 (Rock RPSAction_012)]]"
    by blast
  then have a: "written (state_of (gameStart RPSAction_012
        (run RPSAction_012 [Idle, Tick 0] connected))) = [[0], [1], [0], [1], [0]]"
    unfolding run_waving s w R by simp
  have v: "written (state_of (gameStart RPSAction_012
        (run RPSAction_012 [Idle, Tick 0] connected))) @
      replicate (count_list [Tick 1, Tick 0, GameStart, StopIdle] GameStart)
        [toInt8 (Rock RPSAction_012)] = [[0], [1], [0], [1], [0], [0]]"
    unfolding a R by simp
  from T have "written (run RPSAction_012
        ([Idle, Tick 0] @ GameStart # [Tick 1, Tick 0, GameStart, StopIdle]) connected) =
      written (state_of (gameStart RPSAction_012
        (run RPSAction_012 [Idle, Tick 0] connected))) @
      replicate (count_list [Tick 1, Tick 0, GameStart, StopIdle] GameStart)
        [toInt8 (Rock RPSAction_012)]"
    by blast
  then have b: "written (run RPSAction_012
        ([Idle, Tick 0] @ GameStart # [Tick 1, Tick 0, GameStart, StopIdle]) connected) =
      [[0], [1], [0], [1], [0], [0]]"
    using v by (rule trans)
  from c i wv a b show ?thesis by blast
qed

text \<open>
  Claim C7. In any state such a run reaches, \<open>stopIdleAnimations\<close> returns without error.
  It has called \<open>cleanup\<close> of the current animation, if there was one, and of nothing else;
  it has written the \<open>Paper\<close> byte of the finger wave's \<open>cleanup\<close> when the wave was current,
  and nothing otherwise. Afterwards \<open>idleCurrent\<close> and \<open>idleTimer\<close> are \<open>null\<close>, no animation
  owns a timer, no interval is scheduled any more (neither the rotation interval nor the
  interval of an animation), and no animation is started and not yet stopped. A second
  call right after it returns without error and changes nothing at all: it writes no
  byte, whichever animation was active before the first call.
\<close>

theorem stopIdleAnimations_twice:
  assumes "connected_at_rest s0"
  shows "\<exists>s'. stopIdleAnimations A (run A es s0) = Returned s' \<and>
              idleCurrent s' = None \<and> idleTimer s' = None \<and>
              FingerWave_timer s' = None \<and> CycleGestures_timer s' = None \<and>
              timer_at h s' = None \<and> animation_timers s' = [] \<and>
              started_not_stopped (calls s') [] = [] \<and>
              calls s' =
                calls (run A es s0) @
                (case current_animation (run A es s0) of None \<Rightarrow> []
                 | Some a \<Rightarrow> [CallCleanup a]) \<and>
              written s' =
                written (run A es s0) @
                (if current_animation (run A es s0) = Some FingerWave
                 then [[toInt8 (Paper A)]] else []) \<and>
              stopIdleAnimations A s' = Returned s'"
proof -
  let ?s = "run A es s0"
  from assms have inv: "scheduler_inv ?s"
    by (intro scheduler_inv_run connected_at_rest_inv)
  from scheduler_inv_stop [OF inv, of A]
  obtain s' where s': "stopIdleAnimations A ?s = Returned s'" "nothing_running s'"
      "idleCurrent s' = None" "idleTimer s' = None"
      "written s' =
         written ?s @
         (if current_animation ?s = Some FingerWave then [[toInt8 (Paper A)]] else [])"
    by blast
  from s'(2) have n: "FingerWave_timer s' = None" "CycleGestures_timer s' = None"
      "started_not_stopped (calls s') [] = []"
    by (simp_all add: nothing_running_def)
  have t: "timer_at k s' = None" for k
    using s'(2,4) by (rule nothing_running_no_timer)
  have a: "animation_timers s' = []"
    using t by (rule no_timer_no_animation_timers)
  have c: "calls s' =
      calls ?s @ (case current_animation ?s of None \<Rightarrow> [] | Some a \<Rightarrow> [CallCleanup a])"
    using s'(1) by (rule stopIdleAnimations_calls_exact)
  have again: "stopIdleAnimations A s' = Returned s'"
    using s'(3,4) by (rule stopIdleAnimations_at_rest)
  from s'(1,3,4,5) n t [of h] a c again show ?thesis by blast
qed

theorem stopIdleAnimations_twice_witness:
  "connected_at_rest connected \<and>
   current_animation (run RPSAction_012 [Idle, Tick 0] connected) = Some FingerWave \<and>
   timer_at 1 (run RPSAction_012 [Idle, Tick 0] connected) = Some (WaveTick 4) \<and>
   (\<exists>s'. stopIdleAnimations RPSAction_012 (run RPSAction_012 [Idle, Tick 0] connected) =
            Returned s' \<and>
         timer_at 1 s' = None \<and> FingerWave_timer s' = None \<and>
         calls s' = [CallDo FingerWave, CallCleanup FingerWave] \<and>
         written s' = [[0], [1], [0], [1]] \<and>
         stopIdleAnimations RPSAction_012 s' = Returned s') \<and>
   current_animation cycling = Some CycleGestures \<and>
   timer_at 2 cycling = Some (CycleTick 0) \<and>
   (\<exists>s'. stopIdleAnimations RPSAction_012 cycling = Returned s' \<and>
         timer_at 2 s' = None \<and> CycleGestures_timer s' = None \<and>
         calls s' = calls cycling @ [CallCleanup CycleGestures] \<and>
         written s' = written cycling \<and>
         stopIdleAnimations RPSAction_012 s' = Returned s')"
proof -
  have c: "connected_at_rest connected"
    by (simp add: connected_at_rest_def connected_eq)
  have w: "current_animation waving = Some FingerWave" "timer_at 1 waving = Some (WaveTick 4)"
    "calls waving = [CallDo FingerWave]" "written waving = [[0], [1], [0]]"
    by (simp_all add: waving_eq current_animation_def animation_at_def idleAnimations_def
        timer_at_def written_def)
  have y: "current_animation cycling = Some CycleGestures"
    "timer_at 2 cycling = Some (CycleTick 0)"
    by (simp_all add: cycling_eq current_animation_def animation_at_def idleAnimations_def
        timer_at_def)
  have P: "toInt8 (Paper RPSAction_012) = 1" by (simp add: RPSAction_012_def toInt8_def)
  from stopIdleAnimations_twice [OF c, of RPSAction_012 "[Idle, Tick 0]" 1]
  have 1: "\<exists>s'. stopIdleAnimations RPSAction_012 (run RPSAction_012 [Idle, Tick 0] connected) =
            Returned s' \<and>
         timer_at 1 s' = None \<and> FingerWave_timer s' = None \<and>
         calls s' = [CallDo FingerWave, CallCleanup FingerWave] \<and>
         written s' = [[0], [1], [0], [1]] \<and>
         stopIdleAnimations RPSAction_012 s' = Returned s'"
    unfolding run_waving by (auto simp add: w P)
  from stopIdleAnimations_twice [OF c, of RPSAction_012 "[Idle, Tick 0, Tick 0, Tick 0]" 2]
  have 2: "\<exists>s'. stopIdleAnimations RPSAction_012 cycling = Returned s' \<and>
         timer_at 2 s' = None \<and> CycleGestures_timer s' = None \<and>
         calls s' = calls cycling @ [CallCleanup CycleGestures] \<and>
         written s' = written cycling \<and>
         stopIdleAnimations RPSAction_012 s' = Returned s'"
    unfolding cycling_def [symmetric] by (auto simp add: y)
  from c w(1,2) y 1 2 show ?thesis
    unfolding run_waving by blast
qed

end
